theory Spec2Isabelle
  imports
    Complex_Main
    "HOL-Library.Multiset"
    "HOL-Library.Log_Nat"
    "HOL-Library.Char_ord"
    "HOL-Library.List_Lexorder"
    "HOL-Library.Product_Lexorder"
begin

section \<open>Python values\<close>

text \<open>
  The monitor of \<^verbatim>\<open>process_monitor.py\<close> is embedded function by function.
  A Python \<^verbatim>\<open>str\<close> is the \<^typ>\<open>string\<close> of its UTF-8 bytes, whose lexicographic order
  is the order of the code points that Python compares by. Unbounded \<^verbatim>\<open>int\<close>s are
  \<^typ>\<open>int\<close>, or \<^typ>\<open>nat\<close> where the value is a size or a count, and every \<^verbatim>\<open>float\<close> is the
  rational number it denotes (\<^typ>\<open>rat\<close>); a division that yields a float rounds its
  quotient to the nearest double, as the machine does. Exceptions are values: a class (one
  of those the source names or its operations raise, or any other subclass of
  \<^verbatim>\<open>Exception\<close>) and the text of \<^verbatim>\<open>str(e)\<close>.
\<close>

datatype exn_kind =
  NoSuchProcess | AccessDenied | ZeroDivisionError | TypeError | AttributeError
  | ValueError | OverflowError | TclError | OtherException

datatype exn = Exn (kind: exn_kind) (msg: string)

subsection \<open>Strings: \<^verbatim>\<open>str.lower\<close>, \<^verbatim>\<open>str(int)\<close>, \<^verbatim>\<open>int(str)\<close>, \<^verbatim>\<open>float(str)\<close>, \<^verbatim>\<open>:.1f\<close>\<close>

text \<open>
  \<^verbatim>\<open>str.lower\<close> on the ASCII letters. The source only compares the result with two ASCII
  names, and no character outside ASCII has a lower case that occurs in them, so the
  other bytes can stay as they are.
\<close>

definition lower_char :: "char \<Rightarrow> char" where
  "lower_char c =
     (if CHR ''A'' \<le> c \<and> c \<le> CHR ''Z'' then char_of (of_char c + (32::nat)) else c)"

definition lower :: "string \<Rightarrow> string" where
  "lower s = map lower_char s"

definition digit_char :: "nat \<Rightarrow> char" where
  "digit_char d = char_of (48 + d)"

fun str_nat :: "nat \<Rightarrow> string" where
  "str_nat n = (if n < 10 then [digit_char n] else str_nat (n div 10) @ [digit_char (n mod 10)])"

declare str_nat.simps [simp del]

definition str_int :: "int \<Rightarrow> string" where
  "str_int i = (if i < 0 then ''-'' @ str_nat (nat (- i)) else str_nat (nat i))"

definition is_digit :: "char \<Rightarrow> bool" where
  "is_digit c \<longleftrightarrow> CHR ''0'' \<le> c \<and> c \<le> CHR ''9''"

definition digit_val :: "char \<Rightarrow> nat" where
  "digit_val c = of_char c - 48"

definition nat_of_digits :: "string \<Rightarrow> nat" where
  "nat_of_digits ds = foldl (\<lambda>a c. 10 * a + digit_val c) 0 ds"

text \<open>
  \<^verbatim>\<open>int(s)\<close> and \<^verbatim>\<open>float(s)\<close> on the spellings the monitor itself writes into the table: an
  optional minus sign, decimal digits and, for a float, a decimal point. \<open>None\<close> is
  Python's \<^verbatim>\<open>ValueError\<close>.
\<close>

definition py_int :: "string \<Rightarrow> int option" where
  "py_int s =
     (if s \<noteq> [] \<and> hd s = CHR ''-''
      then (if tl s \<noteq> [] \<and> list_all is_digit (tl s)
            then Some (- int (nat_of_digits (tl s))) else None)
      else (if s \<noteq> [] \<and> list_all is_digit s then Some (int (nat_of_digits s)) else None))"

definition unsigned_float :: "string \<Rightarrow> rat option" where
  "unsigned_float s =
     (let ip = takeWhile (\<lambda>c. c \<noteq> CHR ''.'') s;
          rest = dropWhile (\<lambda>c. c \<noteq> CHR ''.'') s
      in if rest = []
         then (if ip \<noteq> [] \<and> list_all is_digit ip then Some (of_nat (nat_of_digits ip)) else None)
         else (let fp = tl rest
               in if ip @ fp \<noteq> [] \<and> list_all is_digit ip \<and> list_all is_digit fp
                  then Some (of_nat (nat_of_digits ip)
                             + of_nat (nat_of_digits fp) / 10 ^ length fp)
                  else None))"

definition py_float :: "string \<Rightarrow> rat option" where
  "py_float s =
     (if s \<noteq> [] \<and> hd s = CHR ''-'' then map_option uminus (unsigned_float (tl s))
      else unsigned_float s)"

text \<open>
  The format specification \<^verbatim>\<open>:.1f\<close>: the value rounded to one decimal, ties to the even
  digit, with the sign of the value kept (\<^verbatim>\<open>f"{-0.04:.1f}"\<close> is \<^verbatim>\<open>-0.0\<close>).
\<close>

definition round_half_even :: "rat \<Rightarrow> int" where
  "round_half_even y =
     (let f = \<lfloor>y\<rfloor>; d = y - of_int f
      in if d < 1 / 2 then f else if 1 / 2 < d then f + 1 else if even f then f else f + 1)"

definition fmt_1f :: "rat \<Rightarrow> string" where
  "fmt_1f x =
     (let t = nat (round_half_even (\<bar>x\<bar> * 10))
      in (if x < 0 then ''-'' else []) @ str_nat (t div 10) @ ''.'' @ str_nat (t mod 10))"

subsection \<open>Float division\<close>

text \<open>
  A double is a rational \<open>m * 2 ^ k\<close> with \<open>\<bar>m\<bar> < 2 ^ 53\<close> and \<open>k \<ge> -1074\<close>. The machine
  rounds an exact result \<open>x\<close> to the nearest such number, ties to the even mantissa:
  with \<open>2 ^ e \<le> \<bar>x\<bar> < 2 ^ (e + 1)\<close> the doubles around \<open>x\<close> are the multiples of
  \<open>2 ^ (e - 52)\<close>, and of \<open>2 ^ -1074\<close> below the normal range. \<open>floor_log2\<close> finds \<open>e\<close>
  from the bit lengths of numerator and denominator.
\<close>

definition floor_log2 :: "rat \<Rightarrow> int" where
  "floor_log2 x =
     (case quotient_of x of (p, q) \<Rightarrow>
        (let d = bitlen p - bitlen q in if 2 powi d \<le> x then d else d - 1))"

definition round_double :: "rat \<Rightarrow> rat" where
  "round_double x =
     (if x = 0 then 0
      else (let e = max (floor_log2 \<bar>x\<bar>) (- 1022); ulp = 2 powi (e - 52)
            in of_int (round_half_even (x / ulp)) * ulp))"

text \<open>
  The conversion of an \<^verbatim>\<open>int\<close> operand to a float, which refuses a value beyond the
  range of the doubles.
\<close>

definition float_of_nat :: "nat \<Rightarrow> exn + rat" where
  "float_of_nat n =
     (let d = round_double (of_nat n)
      in if 2 powi 1024 \<le> d then Inl (Exn OverflowError ''int too large to convert to float'')
         else Inr d)"

subsection \<open>\<^verbatim>\<open>list.sort(key=..., reverse=...)\<close>\<close>

text \<open>
  Python's sort is stable, and stays stable under \<^verbatim>\<open>reverse=True\<close>: elements with equal
  keys keep their order in both directions.
\<close>

definition py_sort_key :: "('a \<Rightarrow> 'k::linorder) \<Rightarrow> bool \<Rightarrow> 'a list \<Rightarrow> 'a list" where
  "py_sort_key f reverse xs = (if reverse then rev (sort_key f (rev xs)) else sort_key f xs)"

section \<open>Data model\<close>

text \<open>
  \<^verbatim>\<open>psutil.virtual_memory()\<close>: the three fields the monitor reads.
\<close>

record memory =
  total :: nat
  used :: nat
  percent :: rat

text \<open>
  \<^verbatim>\<open>proc.info\<close>: the dictionary of the five requested attributes. \<^verbatim>\<open>psutil\<close> stores
  \<^verbatim>\<open>None\<close> for an attribute it could not read, so every attribute but the pid is optional;
  \<open>memory_info\<close> is the \<^verbatim>\<open>rss\<close> of the attribute.
\<close>

record pinfo =
  pid :: int
  name :: "string option"
  cpu_percent :: "rat option"
  memory_info :: "nat option"
  status :: "string option"

text \<open>
  A dictionary that has been appended to \<^verbatim>\<open>processes\<close>: its name went through
  \<^verbatim>\<open>.lower()\<close> and its \<^verbatim>\<open>cpu_percent\<close> through the division, so both are present, and
  \<open>p_cpu_percent\<close> is the normalized value.
\<close>

record proc_record =
  p_pid :: int
  p_name :: string
  p_cpu_percent :: rat
  p_memory_info :: "nat option"
  p_status :: "string option"

text \<open>The tuple \<^verbatim>\<open>(cpu_percent, memory, processes)\<close> put on the queue.\<close>

type_synonym snapshot = "rat \<times> memory \<times> proc_record list"

section \<open>The sampler: \<^verbatim>\<open>update_loop\<close>\<close>

text \<open>
  What one iteration of the loop observes of the outside world, in the order it asks:
  the flag \<^verbatim>\<open>self.running\<close>, \<^verbatim>\<open>psutil.cpu_percent\<close>, \<^verbatim>\<open>psutil.virtual_memory\<close>, the processes
  \<^verbatim>\<open>psutil.process_iter\<close> yields with what reading \<^verbatim>\<open>proc.info\<close> gives for each (and the
  exception the generator itself ends with, if any), and \<^verbatim>\<open>self.refresh_rate.get()\<close>.
\<close>

record cycle_env =
  running :: bool
  cpu_percent_read :: "exn + rat"
  virtual_memory_read :: "exn + memory"
  process_iter_items :: "(exn + pinfo) list"
  process_iter_raise :: "exn option"
  refresh_rate_get :: "exn + rat"

datatype event = Put snapshot | Sleep rat | Print string

text \<open>
  \<^verbatim>\<open>pinfo['cpu_percent'] / self.num_cores\<close>, with \<^verbatim>\<open>psutil.cpu_count()\<close> possibly \<^verbatim>\<open>None\<close>:
  the division of a float by an \<^verbatim>\<open>int\<close>, which converts the \<^verbatim>\<open>int\<close>, refuses a zero
  divisor and rounds the quotient.
\<close>

definition normalize :: "rat option \<Rightarrow> nat option \<Rightarrow> exn + rat" where
  "normalize raw num_cores =
     (case (raw, num_cores) of
        (Some c, Some n) \<Rightarrow>
          (case float_of_nat n of
             Inl e \<Rightarrow> Inl e
           | Inr d \<Rightarrow>
               if d = 0 then Inl (Exn ZeroDivisionError ''float division by zero'')
               else Inr (round_double (c / d)))
      | (Some c, None) \<Rightarrow>
          Inl (Exn TypeError (''unsupported operand type(s) for /: 'float' and 'NoneType'' @ [CHR 0x27]))
      | (None, Some n) \<Rightarrow>
          Inl (Exn TypeError (''unsupported operand type(s) for /: 'NoneType' and 'int'' @ [CHR 0x27]))
      | (None, None) \<Rightarrow>
          Inl (Exn TypeError (''unsupported operand type(s) for /: 'NoneType' and 'NoneType'' @ [CHR 0x27])))"

definition idle_names :: "string list" where
  "idle_names = [''system idle process'', ''idle'']"

text \<open>
  The body of the inner \<^verbatim>\<open>try\<close> for one process: \<open>Inr None\<close> when the name is filtered,
  \<open>Inr (Some p)\<close> when \<open>p\<close> is appended.
\<close>

definition read_process :: "nat option \<Rightarrow> exn + pinfo \<Rightarrow> exn + proc_record option" where
  "read_process num_cores r =
     (case r of
        Inl e \<Rightarrow> Inl e
      | Inr info \<Rightarrow>
          (case name info of
             None \<Rightarrow> Inl (Exn AttributeError
                          (CHR 0x27 # ''NoneType' object has no attribute 'lower'' @ [CHR 0x27]))
           | Some nm \<Rightarrow>
               if lower nm \<notin> set idle_names
               then (case normalize (cpu_percent info) num_cores of
                       Inl e \<Rightarrow> Inl e
                     | Inr c \<Rightarrow>
                         Inr (Some \<lparr>p_pid = pid info, p_name = nm, p_cpu_percent = c,
                                    p_memory_info = memory_info info, p_status = status info\<rparr>))
               else Inr None))"

text \<open>
  The \<^verbatim>\<open>for\<close> loop over the processes, \<open>acc\<close> being \<^verbatim>\<open>processes\<close>: the inner handler
  catches the two classes it names and continues, any other exception leaves the loop.
\<close>

fun collect :: "nat option \<Rightarrow> (exn + pinfo) list \<Rightarrow> proc_record list \<Rightarrow> exn + proc_record list"
where
  "collect num_cores [] acc = Inr acc"
| "collect num_cores (r # rs) acc =
     (case read_process num_cores r of
        Inl e \<Rightarrow>
          if kind e = NoSuchProcess \<or> kind e = AccessDenied then collect num_cores rs acc
          else Inl e
      | Inr None \<Rightarrow> collect num_cores rs acc
      | Inr (Some p) \<Rightarrow> collect num_cores rs (acc @ [p]))"

definition enumerate_processes :: "nat option \<Rightarrow> cycle_env \<Rightarrow> exn + proc_record list" where
  "enumerate_processes num_cores env =
     (case collect num_cores (process_iter_items env) [] of
        Inl e \<Rightarrow> Inl e
      | Inr ps \<Rightarrow> (case process_iter_raise env of Some e \<Rightarrow> Inl e | None \<Rightarrow> Inr ps))"

text \<open>
  The body of the outer \<^verbatim>\<open>try\<close>: what it did before it ended, and the exception it ended
  with, if any. \<^verbatim>\<open>time.sleep\<close> refuses a negative length.
\<close>

definition try_cycle :: "nat option \<Rightarrow> cycle_env \<Rightarrow> event list \<times> exn option" where
  "try_cycle num_cores env =
     (case cpu_percent_read env of
        Inl e \<Rightarrow> ([], Some e)
      | Inr cpu \<Rightarrow>
     (case virtual_memory_read env of
        Inl e \<Rightarrow> ([], Some e)
      | Inr mem \<Rightarrow>
     (case enumerate_processes num_cores env of
        Inl e \<Rightarrow> ([], Some e)
      | Inr ps \<Rightarrow>
          (let processes = take 50 (py_sort_key p_cpu_percent True ps);
               snap = (cpu, mem, processes)
           in case refresh_rate_get env of
                Inl e \<Rightarrow> ([Put snap], Some e)
              | Inr d \<Rightarrow>
                  if d < 0 then ([Put snap], Some (Exn ValueError ''sleep length must be non-negative''))
                  else ([Put snap, Sleep d], None)))))"

definition update_cycle :: "nat option \<Rightarrow> cycle_env \<Rightarrow> event list" where
  "update_cycle num_cores env =
     (case try_cycle num_cores env of
        (evs, None) \<Rightarrow> evs
      | (evs, Some e) \<Rightarrow> evs @ [Print (''Error in update thread: '' @ msg e), Sleep 1])"

text \<open>
  The \<^verbatim>\<open>while self.running\<close> loop over the iterations the environment scripts. It has
  \<open>Exited\<close> when it read the flag false, and is \<open>Looping\<close> when the script ends first.
\<close>

datatype loop_status = Exited | Looping

fun update_loop :: "nat option \<Rightarrow> cycle_env list \<Rightarrow> event list \<times> loop_status" where
  "update_loop num_cores [] = ([], Looping)"
| "update_loop num_cores (env # envs) =
     (if running env
      then (let (evs, s) = update_loop num_cores envs in (update_cycle num_cores env @ evs, s))
      else ([], Exited))"

section \<open>The presenter\<close>

text \<open>
  A table row is the tuple of the five cell strings the Treeview holds, and the tree is
  the list of its items in display order, each under its item identifier. The columns are
  the five identifiers \<^verbatim>\<open>"PID"\<close>, \<^verbatim>\<open>"Name"\<close>, \<^verbatim>\<open>"CPU%"\<close>, \<^verbatim>\<open>"Memory"\<close>, \<^verbatim>\<open>"Status"\<close>.
\<close>

type_synonym row = "string \<times> string \<times> string \<times> string \<times> string"

datatype column = PID | Name | CPU | Memory | Status

datatype dialog =
  ShowWarning string string | AskYesNo string string | ShowInfo string string
  | ShowError string string

text \<open>
  \<^verbatim>\<open>tree.item(i)['values'][0]\<close>: the toolkit hands a cell back as an \<^verbatim>\<open>int\<close> when
  \<^verbatim>\<open>int()\<close> accepts it, and as the string otherwise.
\<close>

datatype pyval = PyInt int | PyStr string

definition convert_stringval :: "string \<Rightarrow> pyval" where
  "convert_stringval s = (case py_int s of Some i \<Rightarrow> PyInt i | None \<Rightarrow> PyStr s)"

fun str_pyval :: "pyval \<Rightarrow> string" where
  "str_pyval (PyInt i) = str_int i"
| "str_pyval (PyStr s) = s"

text \<open>
  The state of the \<^verbatim>\<open>ProcessMonitor\<close> object on the interface thread, with what it has
  shown and asked so far: the console lines it printed, the message boxes it opened and
  the values it asked \<^verbatim>\<open>psutil\<close> to terminate. \<open>heading_command c\<close> is the direction
  flag of the command bound to the heading of column \<open>c\<close>, \<open>tree_serial\<close> counts the items
  the tree has created.
\<close>

record monitor =
  num_cores :: "nat option"
  update_queue :: "snapshot list"
  cpu_label :: string
  memory_label :: string
  process_count_label :: string
  tree :: "(string \<times> row) list"
  tree_serial :: nat
  tree_selection :: "string list"
  heading_command :: "column \<Rightarrow> bool option"
  console :: "string list"
  dialogs :: "dialog list"
  terminate_requests :: "pyval list"

text \<open>The widgets as \<^verbatim>\<open>__init__\<close> leaves them.\<close>

definition init_monitor :: "nat option \<Rightarrow> monitor" where
  "init_monitor cores =
     \<lparr>num_cores = cores, update_queue = [],
      cpu_label = ''CPU: 0%'', memory_label = ''Memory: 0%'',
      process_count_label = ''Processes: 0'',
      tree = [], tree_serial = 0, tree_selection = [],
      heading_command =
        (\<lambda>c. case c of PID \<Rightarrow> Some False | Name \<Rightarrow> Some False | CPU \<Rightarrow> Some True
               | Memory \<Rightarrow> Some True | Status \<Rightarrow> None),
      console = [], dialogs = [], terminate_requests = []\<rparr>"

subsection \<open>\<^verbatim>\<open>check_updates\<close>\<close>

definition MB :: nat where
  "MB = 1024 * 1024"

definition cpu_text :: "nat option \<Rightarrow> rat \<Rightarrow> string" where
  "cpu_text cores cpu =
     ''CPU: '' @ fmt_1f cpu @ ''% (Cores: ''
       @ (case cores of None \<Rightarrow> ''None'' | Some n \<Rightarrow> str_nat n) @ '')''"

definition memory_text :: "memory \<Rightarrow> string" where
  "memory_text m =
     ''Memory: '' @ fmt_1f (percent m) @ ''% ('' @ str_nat (used m div MB) @ '' MB / ''
       @ str_nat (total m div MB) @ '' MB)''"

definition process_count_text :: "proc_record list \<Rightarrow> string" where
  "process_count_text ps = ''Processes: '' @ str_nat (length ps)"

text \<open>
  The values of one inserted row; \<open>Inl\<close> is the \<^verbatim>\<open>AttributeError\<close> of \<^verbatim>\<open>.rss\<close> on a
  \<^verbatim>\<open>memory_info\<close> that is \<^verbatim>\<open>None\<close>. A status that is \<^verbatim>\<open>None\<close> is shown as its \<^verbatim>\<open>str\<close>.
  The division of the two \<^verbatim>\<open>int\<close>s yields the double nearest to the quotient (resident
  sizes are far below the sizes whose quotient would overflow).
\<close>

definition render_row :: "proc_record \<Rightarrow> exn + row" where
  "render_row p =
     (case p_memory_info p of
        None \<Rightarrow> Inl (Exn AttributeError
               (CHR 0x27 # ''NoneType' object has no attribute 'rss'' @ [CHR 0x27]))
      | Some rss \<Rightarrow>
          (let memory_mb = round_double (of_nat rss / of_nat MB)
           in Inr (str_int (p_pid p), p_name p, fmt_1f (p_cpu_percent p), fmt_1f memory_mb,
                   (case p_status p of None \<Rightarrow> ''None'' | Some s \<Rightarrow> s))))"

text \<open>
  \<^verbatim>\<open>tree.insert("", "end", values=...)\<close>: the new item goes last, under the identifier
  the toolkit's naming scheme \<open>iid\<close> gives the next serial number.
\<close>

definition tree_insert :: "(nat \<Rightarrow> string) \<Rightarrow> row \<Rightarrow> monitor \<Rightarrow> monitor" where
  "tree_insert iid r st =
     st\<lparr>tree := tree st @ [(iid (tree_serial st), r)], tree_serial := Suc (tree_serial st)\<rparr>"

text \<open>The loop that populates the list: a row that fails is reported and skipped.\<close>

fun populate :: "(nat \<Rightarrow> string) \<Rightarrow> proc_record list \<Rightarrow> monitor \<Rightarrow> monitor" where
  "populate iid [] st = st"
| "populate iid (p # ps) st =
     (case render_row p of
        Inl e \<Rightarrow>
          populate iid ps (st\<lparr>console := console st @ [''Error processing process data: '' @ msg e]\<rparr>)
      | Inr r \<Rightarrow> populate iid ps (tree_insert iid r st))"

text \<open>
  One turn of the \<^verbatim>\<open>while\<close> loop for the snapshot taken off the queue: the three labels,
  the deletion of every item (which empties the selection with them), the new rows.
\<close>

definition show_snapshot :: "(nat \<Rightarrow> string) \<Rightarrow> snapshot \<Rightarrow> monitor \<Rightarrow> monitor" where
  "show_snapshot iid snap st =
     (case snap of (cpu, mem, processes) \<Rightarrow>
        populate iid processes
          (st\<lparr>cpu_label := cpu_text (num_cores st) cpu,
              memory_label := memory_text mem,
              process_count_label := process_count_text processes,
              tree := [], tree_selection := []\<rparr>))"

text \<open>\<^verbatim>\<open>while not self.update_queue.empty()\<close>, on the snapshots queued when the drain starts.\<close>

fun drain :: "(nat \<Rightarrow> string) \<Rightarrow> snapshot list \<Rightarrow> monitor \<Rightarrow> monitor" where
  "drain iid [] st = st"
| "drain iid (snap # q) st = drain iid q (show_snapshot iid snap (st\<lparr>update_queue := q\<rparr>))"

definition check_updates :: "(nat \<Rightarrow> string) \<Rightarrow> monitor \<Rightarrow> monitor" where
  "check_updates iid st = drain iid (update_queue st) st"

text \<open>What the operator sees of a state: the three summary labels and the rows' values.\<close>

definition displayed :: "monitor \<Rightarrow> string \<times> string \<times> string \<times> row list" where
  "displayed st = (cpu_label st, memory_label st, process_count_label st, map snd (tree st))"

subsection \<open>\<^verbatim>\<open>sort_column\<close>\<close>

text \<open>\<^verbatim>\<open>tree.set(k, col)\<close>: the cell of a row in a column.\<close>

fun tree_set :: "row \<Rightarrow> column \<Rightarrow> string" where
  "tree_set (p, n, c, m, s) PID = p"
| "tree_set (p, n, c, m, s) Name = n"
| "tree_set (p, n, c, m, s) CPU = c"
| "tree_set (p, n, c, m, s) Memory = m"
| "tree_set (p, n, c, m, s) Status = s"

text \<open>The key of the numeric columns, \<^verbatim>\<open>float(x[0]) if x[0] else 0\<close>.\<close>

definition float_key :: "string \<Rightarrow> exn + rat" where
  "float_key v =
     (if v = [] then Inr 0
      else case py_float v of
             None \<Rightarrow>
               Inl (Exn ValueError (''could not convert string to float: '' @ [CHR 0x27] @ v
                                     @ [CHR 0x27]))
           | Some x \<Rightarrow> Inr x)"

text \<open>
  The keys of all items, computed before anything is moved; the first failure is the
  exception of the sort.
\<close>

fun decorate :: "(string \<times> string) list \<Rightarrow> exn + (rat \<times> string \<times> string) list" where
  "decorate [] = Inr []"
| "decorate (x # xs) =
     (case float_key (fst x) of
        Inl e \<Rightarrow> Inl e
      | Inr q \<Rightarrow> (case decorate xs of Inl e \<Rightarrow> Inl e | Inr ds \<Rightarrow> Inr ((q, x) # ds)))"

text \<open>\<^verbatim>\<open>items.sort(...)\<close> on the pairs \<^verbatim>\<open>(value, k)\<close>, in both branches of the source.\<close>

definition sort_items :: "column \<Rightarrow> bool \<Rightarrow> (string \<times> string) list \<Rightarrow> exn + (string \<times> string) list"
where
  "sort_items col reverse items =
     (if col = CPU \<or> col = Memory
      then (case decorate items of
              Inl e \<Rightarrow> Inl e
            | Inr ds \<Rightarrow> Inr (map snd (py_sort_key fst reverse ds)))
      else Inr (py_sort_key (\<lambda>x. x) reverse items))"

text \<open>
  \<^verbatim>\<open>tree.move(k, '', index)\<close>: the item leaves its place and enters at \<open>index\<close> among the
  others. An identifier the tree does not hold moves nothing (the source only moves the
  children it has just listed).
\<close>

definition tree_move :: "string \<Rightarrow> nat \<Rightarrow> (string \<times> row) list \<Rightarrow> (string \<times> row) list" where
  "tree_move k index t =
     (case filter (\<lambda>item. fst item = k) t of
        [] \<Rightarrow> t
      | item # _ \<Rightarrow>
          (let others = filter (\<lambda>item. fst item \<noteq> k) t
           in take index others @ item # drop index others))"

definition move_all :: "(string \<times> string) list \<Rightarrow> (string \<times> row) list \<Rightarrow> (string \<times> row) list" where
  "move_all items t = fold (\<lambda>(index, (val, k)). tree_move k index) (enumerate 0 items) t"

definition sort_column :: "monitor \<Rightarrow> column \<Rightarrow> bool \<Rightarrow> exn + monitor" where
  "sort_column st col reverse =
     (let items = map (\<lambda>(k, r). (tree_set r col, k)) (tree st)
      in case sort_items col reverse items of
           Inl e \<Rightarrow> Inl e
         | Inr sorted_items \<Rightarrow>
             Inr (st\<lparr>tree := move_all sorted_items (tree st),
                     heading_command := (heading_command st)(col := Some (\<not> reverse))\<rparr>))"

text \<open>A click on a column heading runs the command bound to it, if there is one.\<close>

definition click_heading :: "monitor \<Rightarrow> column \<Rightarrow> exn + monitor" where
  "click_heading st col =
     (case heading_command st col of
        None \<Rightarrow> Inr st
      | Some reverse \<Rightarrow> sort_column st col reverse)"

subsection \<open>\<^verbatim>\<open>terminate_process\<close>\<close>

text \<open>
  \<open>confirm\<close> is the operator's answer to the confirmation dialog and \<open>os_terminate v\<close>
  the exception \<^verbatim>\<open>psutil.Process(v).terminate()\<close> ends with, if any. Looking up an item
  the tree does not hold is the toolkit's \<^verbatim>\<open>TclError\<close>, raised before the \<^verbatim>\<open>try\<close>.
\<close>

definition show_dialog :: "dialog \<Rightarrow> monitor \<Rightarrow> monitor" where
  "show_dialog d st = st\<lparr>dialogs := dialogs st @ [d]\<rparr>"

definition terminate_process :: "(pyval \<Rightarrow> exn option) \<Rightarrow> bool \<Rightarrow> monitor \<Rightarrow> exn + monitor" where
  "terminate_process os_terminate confirm st =
     (case tree_selection st of
        [] \<Rightarrow> Inr (show_dialog
                 (ShowWarning ''No Selection'' ''Please select a process to terminate.'') st)
      | sel # _ \<Rightarrow>
          (case map_of (tree st) sel of
             None \<Rightarrow> Inl (Exn TclError (''Item '' @ sel @ '' not found''))
           | Some r \<Rightarrow>
               (let pid = convert_stringval (tree_set r PID);
                    st1 = show_dialog
                            (AskYesNo ''Confirm Termination''
                               (''Are you sure you want to terminate PID '' @ str_pyval pid @ ''?''))
                            st
                in if confirm
                   then (let st2 = st1\<lparr>terminate_requests := terminate_requests st1 @ [pid]\<rparr>
                         in case os_terminate pid of
                              None \<Rightarrow>
                                Inr (show_dialog
                                       (ShowInfo ''Success''
                                          (''Process '' @ str_pyval pid @ '' terminated.''))
                                       st2)
                            | Some e \<Rightarrow>
                                if kind e = NoSuchProcess
                                then Inr (show_dialog
                                            (ShowError ''Error'' ''Process no longer exists.'') st2)
                                else if kind e = AccessDenied
                                then Inr (show_dialog
                                            (ShowError ''Error''
                                               ''Access denied. Run as Administrator.'')
                                            st2)
                                else Inr (show_dialog
                                            (ShowError ''Error''
                                               (''Failed to terminate process: '' @ msg e))
                                            st2))
                   else Inr st1)))"

section \<open>Sample inputs\<close>

text \<open>
  One iteration on a four-core machine: the idle placeholder, a worker, a process that
  vanished while it was read, and a busy system process.
\<close>

definition sample_memory :: memory where
  "sample_memory = \<lparr>total = 16000000000, used = 8000000000, percent = 50\<rparr>"

definition sample_env :: cycle_env where
  "sample_env =
     \<lparr>running = True,
      cpu_percent_read = Inr 25,
      virtual_memory_read = Inr sample_memory,
      process_iter_items =
        [Inr \<lparr>pid = 0, name = Some ''System Idle Process'', cpu_percent = Some 390,
              memory_info = Some 8192, status = Some ''running''\<rparr>,
         Inr \<lparr>pid = 1234, name = Some ''worker'', cpu_percent = Some 400,
              memory_info = Some 52428800, status = Some ''running''\<rparr>,
         Inl (Exn NoSuchProcess ''process no longer exists (pid=77)''),
         Inr \<lparr>pid = 4, name = Some ''System'', cpu_percent = Some 800,
              memory_info = None, status = Some ''sleeping''\<rparr>],
      process_iter_raise = None,
      refresh_rate_get = Inr (1 / 2)\<rparr>"

definition sample_processes :: "proc_record list" where
  "sample_processes =
     [\<lparr>p_pid = 4, p_name = ''System'', p_cpu_percent = 200,
       p_memory_info = None, p_status = Some ''sleeping''\<rparr>,
      \<lparr>p_pid = 1234, p_name = ''worker'', p_cpu_percent = 100,
       p_memory_info = Some 52428800, p_status = Some ''running''\<rparr>]"

text \<open>
  The records of the processes that were read and not filtered, in enumeration order:
  what the inner loop appends when nothing aborts it.
\<close>

definition readable_records :: "nat option \<Rightarrow> (exn + pinfo) list \<Rightarrow> proc_record list" where
  "readable_records cores rs =
     concat (map (\<lambda>r. case read_process cores r of Inr (Some p) \<Rightarrow> [p] | _ \<Rightarrow> []) rs)"

text \<open>A read that the inner handler catches: the process vanished or access was denied.\<close>

definition skipped_read :: "nat option \<Rightarrow> exn + pinfo \<Rightarrow> bool" where
  "skipped_read cores r =
     (case read_process cores r of
        Inl e \<Rightarrow> kind e = NoSuchProcess \<or> kind e = AccessDenied
      | Inr _ \<Rightarrow> False)"

text \<open>A read that raises anything else, which aborts the cycle.\<close>

definition aborting_read :: "nat option \<Rightarrow> exn + pinfo \<Rightarrow> bool" where
  "aborting_read cores r =
     (case read_process cores r of
        Inl e \<Rightarrow> \<not> (kind e = NoSuchProcess \<or> kind e = AccessDenied)
      | Inr _ \<Rightarrow> False)"

definition snapshots_of :: "event list \<Rightarrow> snapshot list" where
  "snapshots_of evs = concat (map (\<lambda>ev. case ev of Put s \<Rightarrow> [s] | _ \<Rightarrow> []) evs)"

text \<open>
  The sample iteration with access to the CPU reading of the system process denied, which
  \<^verbatim>\<open>psutil\<close> reports as \<^verbatim>\<open>None\<close>; and an iteration on three cores whose only process has
  the raw reading 0.1, the double \<open>3602879701896397 / 2 ^ 55\<close>.
\<close>

definition denied_env :: cycle_env where
  "denied_env =
     sample_env
       \<lparr>process_iter_items :=
          [Inr \<lparr>pid = 4, name = Some ''System'', cpu_percent = None,
                memory_info = None, status = Some ''sleeping''\<rparr>,
           Inr \<lparr>pid = 1234, name = Some ''worker'', cpu_percent = Some 400,
                memory_info = Some 52428800, status = Some ''running''\<rparr>]\<rparr>"

definition tenth_env :: cycle_env where
  "tenth_env =
     sample_env
       \<lparr>process_iter_items :=
          [Inr \<lparr>pid = 1234, name = Some ''worker'',
                cpu_percent = Some (3602879701896397 / 36028797018963968),
                memory_info = Some 52428800, status = Some ''running''\<rparr>]\<rparr>"

text \<open>
  Variations of the sample iteration: the metrics backend fails, the shutdown flag is
  down, the interval control holds 7 seconds, 2 seconds, or -1.
\<close>

definition failing_env :: cycle_env where
  "failing_env = sample_env\<lparr>cpu_percent_read := Inl (Exn OtherException ''metrics backend failed'')\<rparr>"

definition stopped_env :: cycle_env where
  "stopped_env = sample_env\<lparr>running := False\<rparr>"

definition slow_env :: cycle_env where
  "slow_env = sample_env\<lparr>refresh_rate_get := Inr 7\<rparr>"

definition retuned_env :: cycle_env where
  "retuned_env = sample_env\<lparr>refresh_rate_get := Inr 2\<rparr>"

definition negative_env :: cycle_env where
  "negative_env = sample_env\<lparr>refresh_rate_get := Inr (- 1)\<rparr>"

text \<open>
  The rows a list of records puts into the table, and the display a snapshot gives when
  it is the one shown: both only name what \<open>populate\<close> and \<open>show_snapshot\<close> compute.
\<close>

definition rendered_rows :: "proc_record list \<Rightarrow> row list" where
  "rendered_rows ps = concat (map (\<lambda>p. case render_row p of Inl _ \<Rightarrow> [] | Inr r \<Rightarrow> [r]) ps)"

definition snapshot_view :: "nat option \<Rightarrow> snapshot \<Rightarrow> string \<times> string \<times> string \<times> row list" where
  "snapshot_view cores snap =
     (case snap of (cpu, mem, processes) \<Rightarrow>
        (cpu_text cores cpu, memory_text mem, process_count_text processes,
         rendered_rows processes))"

text \<open>Two snapshots, the older with one process and the newer with the sample's two.\<close>

definition older_snapshot :: snapshot where
  "older_snapshot =
     (100, \<lparr>total = 16000000000, used = 4000000000, percent = 25\<rparr>,
      [\<lparr>p_pid = 1234, p_name = ''worker'', p_cpu_percent = 1234 / 100,
        p_memory_info = Some 52428800, p_status = Some ''running''\<rparr>])"

definition newer_snapshot :: snapshot where
  "newer_snapshot = (25, sample_memory, sample_processes)"

text \<open>An item naming scheme for the examples: the letter I and the serial number.\<close>

definition sample_iid :: "nat \<Rightarrow> string" where
  "sample_iid n = CHR ''I'' # str_nat n"

text \<open>
  The dialog that reports what \<^verbatim>\<open>psutil.Process(v).terminate()\<close> ended with: the three
  handlers of the source in their order, and the success message.
\<close>

definition outcome_dialog :: "pyval \<Rightarrow> exn option \<Rightarrow> dialog" where
  "outcome_dialog v outcome =
     (case outcome of
        None \<Rightarrow> ShowInfo ''Success'' (''Process '' @ str_pyval v @ '' terminated.'')
      | Some e \<Rightarrow>
          if kind e = NoSuchProcess then ShowError ''Error'' ''Process no longer exists.''
          else if kind e = AccessDenied
          then ShowError ''Error'' ''Access denied. Run as Administrator.''
          else ShowError ''Error'' (''Failed to terminate process: '' @ msg e))"

definition confirm_dialog :: "pyval \<Rightarrow> dialog" where
  "confirm_dialog v =
     AskYesNo ''Confirm Termination''
       (''Are you sure you want to terminate PID '' @ str_pyval v @ ''?'')"

text \<open>
  The monitor after it has shown the newer sample snapshot, with its only row selected,
  and an operating system that answers every request with the same exception.
\<close>

definition shown_monitor :: monitor where
  "shown_monitor =
     (check_updates sample_iid ((init_monitor (Some 4))\<lparr>update_queue := [newer_snapshot]\<rparr>))
       \<lparr>tree_selection := [''I0'']\<rparr>"

definition failing_os :: "exn \<Rightarrow> pyval \<Rightarrow> exn option" where
  "failing_os e v = Some e"

section \<open>The order a sorted table is in\<close>

text \<open>
  The comparison the sort command is said to use: numeric on the cells of the columns
  \<^verbatim>\<open>CPU%\<close> and \<^verbatim>\<open>Memory\<close>, lexicographic on the cells of the other columns. A table is in
  order by a column when each row's cell is below (\<open>reverse\<close>: above) the cells of the
  rows after it.
\<close>

definition numeric_le :: "string \<Rightarrow> string \<Rightarrow> bool" where
  "numeric_le a b =
     (case (float_key a, float_key b) of (Inr x, Inr y) \<Rightarrow> x \<le> y | _ \<Rightarrow> False)"

definition cell_le :: "column \<Rightarrow> string \<Rightarrow> string \<Rightarrow> bool" where
  "cell_le col a b = (if col = CPU \<or> col = Memory then numeric_le a b else a \<le> b)"

definition in_order :: "column \<Rightarrow> bool \<Rightarrow> (string \<times> row) list \<Rightarrow> bool" where
  "in_order col reverse t =
     sorted_wrt
       (\<lambda>a b. if reverse then cell_le col (tree_set (snd b) col) (tree_set (snd a) col)
              else cell_le col (tree_set (snd a) col) (tree_set (snd b) col))
       t"

text \<open>
  A table as the toolkit and \<open>populate\<close> keep it: no two items share an identifier, and
  the cells of the numeric columns are numbers.
\<close>

definition has_number :: "string \<Rightarrow> bool" where
  "has_number v = (case float_key v of Inl _ \<Rightarrow> False | Inr _ \<Rightarrow> True)"

definition table_ok :: "(string \<times> row) list \<Rightarrow> bool" where
  "table_ok t \<longleftrightarrow>
     distinct (map fst t)
     \<and> list_all (\<lambda>item. has_number (tree_set (snd item) CPU)
                         \<and> has_number (tree_set (snd item) Memory)) t"

text \<open>A table of three rows, two of them with the same CPU cell, and a monitor showing it.\<close>

definition sample_table :: "(string \<times> row) list" where
  "sample_table =
     [(''I0'', (''1234'', ''worker'', ''100.0'', ''50.0'', ''running'')),
      (''I1'', (''4'', ''System'', ''200.0'', ''0.1'', ''sleeping'')),
      (''I2'', (''77'', ''agent'', ''100.0'', ''7.5'', ''running''))]"

definition table_monitor :: monitor where
  "table_monitor = (init_monitor (Some 4))\<lparr>tree := sample_table\<rparr>"

text \<open>The same monitor after a click on the CPU heading, and after a second click.\<close>

definition cpu_down :: monitor where
  "cpu_down =
     table_monitor
       \<lparr>tree := [(''I1'', (''4'', ''System'', ''200.0'', ''0.1'', ''sleeping'')),
                 (''I0'', (''1234'', ''worker'', ''100.0'', ''50.0'', ''running'')),
                 (''I2'', (''77'', ''agent'', ''100.0'', ''7.5'', ''running''))],
        heading_command := (heading_command table_monitor)(CPU := Some False)\<rparr>"

definition cpu_up :: monitor where
  "cpu_up =
     table_monitor
       \<lparr>tree := [(''I0'', (''1234'', ''worker'', ''100.0'', ''50.0'', ''running'')),
                 (''I2'', (''77'', ''agent'', ''100.0'', ''7.5'', ''running'')),
                 (''I1'', (''4'', ''System'', ''200.0'', ''0.1'', ''sleeping''))],
        heading_command := (heading_command table_monitor)(CPU := Some True)\<rparr>"

section \<open>Properties of float division\<close>

lemma bitlen_powi:
  assumes "0 < p"
  shows "(2::rat) powi (bitlen p - 1) \<le> of_int p" and "of_int p < (2::rat) powi bitlen p"
proof -
  from assms have b: "1 \<le> bitlen p" by (simp add: bitlen_alt_def)
  from bitlen_bounds [OF assms]
  have "(2::int) ^ nat (bitlen p - 1) \<le> p" and "p < 2 ^ nat (bitlen p)" by simp_all
  then have "(of_int ((2::int) ^ nat (bitlen p - 1)) :: rat) \<le> of_int p"
    and "(of_int p :: rat) < of_int (2 ^ nat (bitlen p))"
    by (simp_all only: of_int_le_iff of_int_less_iff)
  with b show "(2::rat) powi (bitlen p - 1) \<le> of_int p" and "of_int p < (2::rat) powi bitlen p"
    by (simp_all add: power_int_def)
qed

lemma floor_log2_bounds:
  assumes "0 < x"
  shows "2 powi floor_log2 x \<le> x" and "x < 2 powi (floor_log2 x + 1)"
proof -
  obtain p q where pq: "quotient_of x = (p, q)" by (cases "quotient_of x")
  then have q: "0 < q" and x: "x = of_int p / of_int q"
    by (rule quotient_of_denom_pos, rule quotient_of_div)
  from assms x q have p: "0 < p" by (simp add: zero_less_divide_iff)
  let ?d = "bitlen p - bitlen q"
  note P = bitlen_powi [OF p] and Q = bitlen_powi [OF q]
  have qpos: "(0::rat) < of_int q" using q by simp
  have "x * of_int q < 2 powi bitlen p" using x P(2) qpos by simp
  also have "\<dots> = 2 powi (?d + 1) * 2 powi (bitlen q - 1)"
    by (simp add: power_int_add [symmetric])
  also have "\<dots> \<le> 2 powi (?d + 1) * of_int q"
    using Q(1) by (simp add: mult_left_mono)
  finally have up: "x < 2 powi (?d + 1)" using qpos by simp
  have "(2::rat) powi (?d - 1) * of_int q < 2 powi (?d - 1) * 2 powi bitlen q"
    using Q(2) by (simp add: mult_strict_left_mono)
  also have "\<dots> = 2 powi (bitlen p - 1)"
    by (simp add: power_int_add [symmetric])
  also have "\<dots> \<le> x * of_int q" using x P(1) qpos by simp
  finally have lo: "2 powi (?d - 1) \<le> x" using qpos by simp
  show "2 powi floor_log2 x \<le> x" and "x < 2 powi (floor_log2 x + 1)"
    using up lo by (auto simp: floor_log2_def pq Let_def not_le)
qed

lemma floor_log2_unique:
  assumes "0 < x" "2 powi e \<le> x" "x < 2 powi (e + 1)"
  shows "floor_log2 x = e"
proof (rule antisym)
  note B = floor_log2_bounds [OF assms(1)]
  from B(1) assms(3) have "(2::rat) powi floor_log2 x < 2 powi (e + 1)" by simp
  moreover have "(2::rat) powi (e + 1) \<le> 2 powi floor_log2 x" if "e + 1 \<le> floor_log2 x"
    using that by (intro power_int_increasing) simp_all
  ultimately show "floor_log2 x \<le> e" by fastforce
  from assms(2) B(2) have "(2::rat) powi e < 2 powi (floor_log2 x + 1)" by simp
  moreover have "(2::rat) powi (floor_log2 x + 1) \<le> 2 powi e" if "floor_log2 x + 1 \<le> e"
    using that by (intro power_int_increasing) simp_all
  ultimately show "e \<le> floor_log2 x" by fastforce
qed


lemma round_double_eq:
  assumes "x \<noteq> 0" "2 powi e \<le> \<bar>x\<bar>" "\<bar>x\<bar> < 2 powi (e + 1)"
  shows "round_double x =
           of_int (round_half_even (x / 2 powi (max e (- 1022) - 52)))
             * 2 powi (max e (- 1022) - 52)"
proof -
  from assms(1) have "0 < \<bar>x\<bar>" by simp
  from floor_log2_unique [OF this assms(2,3)] assms(1) show ?thesis
    by (simp add: round_double_def Let_def)
qed

lemma round_half_even_near: "\<bar>of_int (round_half_even y) - y\<bar> \<le> 1 / 2"
proof -
  have "of_int \<lfloor>y\<rfloor> \<le> y" "y < of_int \<lfloor>y\<rfloor> + 1" by linarith+
  then show ?thesis
    by (auto simp: round_half_even_def Let_def abs_le_iff)
qed

lemma round_half_even_of_int: "round_half_even (of_int j) = j"
  by (simp add: round_half_even_def)

lemma round_double_representable:
  assumes "\<bar>m\<bar> < 2 ^ 53" "- 1074 \<le> k"
  shows "round_double (of_int m * 2 powi k) = of_int m * 2 powi k"
proof (cases "m = 0")
  case True
  then show ?thesis by (simp add: round_double_def)
next
  case False
  let ?x = "of_int m * (2::rat) powi k"
  let ?e = "floor_log2 \<bar>?x\<bar>"
  let ?u = "max ?e (- 1022) - 52"
  from False have x0: "?x \<noteq> 0" and xpos: "0 < \<bar>?x\<bar>" by simp_all
  note B = floor_log2_bounds [OF xpos]
  have "\<bar>?x\<bar> = of_int \<bar>m\<bar> * 2 powi k" by (simp add: abs_mult)
  also have "\<dots> < 2 ^ 53 * 2 powi k"
  proof -
    from assms(1) have "(of_int \<bar>m\<bar> :: rat) < of_int (2 ^ 53)"
      by (simp only: of_int_less_iff)
    then show ?thesis by (simp add: mult_strict_right_mono)
  qed
  also have "\<dots> = 2 powi (53 + k)" by (simp add: power_int_add)
  finally have "(2::rat) powi ?e < 2 powi (53 + k)" using B(1) by simp
  moreover have "(2::rat) powi (53 + k) \<le> 2 powi ?e" if "53 + k \<le> ?e"
    using that by (intro power_int_increasing) simp_all
  ultimately have "?e < 53 + k" by fastforce
  with assms(2) have uk: "?u \<le> k" by simp
  have "?x / 2 powi ?u = of_int m * 2 powi (k - ?u)"
    by (simp add: power_int_diff)
  also from uk have "\<dots> = of_int (m * 2 ^ nat (k - ?u))"
    by (simp add: power_int_def)
  finally have q: "?x / 2 powi ?u = of_int (m * 2 ^ nat (k - ?u))" .
  have "round_double ?x = of_int (round_half_even (?x / 2 powi ?u)) * 2 powi ?u"
    using x0 by (simp add: round_double_def Let_def)
  also have "\<dots> = (?x / 2 powi ?u) * 2 powi ?u"
    by (simp only: q round_half_even_of_int)
  also have "\<dots> = ?x" by simp
  finally show ?thesis .
qed

lemma round_double_int:
  "\<bar>m\<bar> < 2 ^ 53 \<Longrightarrow> round_double (of_int m) = of_int m"
  using round_double_representable [of m 0] by simp

lemma round_double_error:
  assumes "2 powi (- 1022) \<le> \<bar>x\<bar>"
  shows "\<bar>round_double x - x\<bar> \<le> \<bar>x\<bar> / 2 ^ 53"
proof -
  from assms have xpos: "0 < \<bar>x\<bar>" and x0: "x \<noteq> 0"
    by (auto intro: less_le_trans [OF _ assms])
  let ?e = "floor_log2 \<bar>x\<bar>"
  note B = floor_log2_bounds [OF xpos]
  from assms B(2) have "(2::rat) powi (- 1022) < 2 powi (?e + 1)" by simp
  moreover have "(2::rat) powi (?e + 1) \<le> 2 powi (- 1022)" if "?e + 1 \<le> - 1022"
    using that by (intro power_int_increasing) simp_all
  ultimately have e: "- 1022 \<le> ?e" by fastforce
  let ?ulp = "(2::rat) powi (?e - 52)"
  have ulp: "0 < ?ulp" by simp
  from e x0 have r: "round_double x = of_int (round_half_even (x / ?ulp)) * ?ulp"
    by (simp add: round_double_def Let_def max_def)
  have "of_int (round_half_even (x / ?ulp)) * ?ulp - x
          = (of_int (round_half_even (x / ?ulp)) - x / ?ulp) * ?ulp"
    using ulp by (simp add: left_diff_distrib)
  then have "\<bar>round_double x - x\<bar>
          = \<bar>of_int (round_half_even (x / ?ulp)) - x / ?ulp\<bar> * \<bar>?ulp\<bar>"
    by (simp only: r abs_mult)
  also have "\<dots> = \<bar>of_int (round_half_even (x / ?ulp)) - x / ?ulp\<bar> * ?ulp"
    using ulp by simp
  also have "\<dots> \<le> 1 / 2 * ?ulp"
    using round_half_even_near [of "x / ?ulp"] ulp by (intro mult_right_mono) simp_all
  also have "\<dots> = 2 powi ?e / 2 ^ 53"
    by (simp add: power_int_diff)
  also have "\<dots> \<le> \<bar>x\<bar> / 2 ^ 53"
    using B(1) by (simp add: divide_right_mono)
  finally show ?thesis .
qed

lemma round_half_even_below:
  assumes "of_int f \<le> y" "y < of_int f + 1 / 2"
  shows "round_half_even y = f"
proof -
  from assms have "\<lfloor>y\<rfloor> = f" by (simp add: floor_eq_iff)
  with assms show ?thesis by (simp add: round_half_even_def Let_def)
qed

lemma round_half_even_int: "round_half_even (of_int f) = f"
  by (rule round_half_even_below) simp_all

lemma float_of_nat_small: "n < 2 ^ 53 \<Longrightarrow> float_of_nat n = Inr (of_nat n)"
proof -
  assume n: "n < 2 ^ 53"
  then have "\<bar>int n\<bar> < 2 ^ 53"
    by (metis abs_of_nat of_nat_less_iff of_nat_numeral of_nat_power)
  from round_double_int [OF this] have r: "round_double (of_nat n) = of_nat n" by simp
  from n have "(of_nat n :: rat) < of_nat (2 ^ 53)" by (simp only: of_nat_less_iff)
  also have "\<dots> = 2 powi 53" by simp
  also have "\<dots> \<le> 2 powi 1024" by (intro power_int_increasing) simp_all
  finally show ?thesis by (simp add: float_of_nat_def r)
qed

lemma normalize_small:
  "n \<noteq> 0 \<Longrightarrow> n < 2 ^ 53 \<Longrightarrow>
     normalize (Some c) (Some n) = Inr (round_double (c / of_nat n))"
  by (simp add: normalize_def float_of_nat_small)

lemma normalize_sample:
  "normalize (Some 400) (Some 4) = Inr 100" "normalize (Some 800) (Some 4) = Inr 200"
proof -
  have "round_double (of_int 100) = of_int 100" "round_double (of_int 200) = of_int 200"
    by (rule round_double_int, simp)+
  then show "normalize (Some 400) (Some 4) = Inr 100" "normalize (Some 800) (Some 4) = Inr 200"
    by (simp_all add: normalize_small)
qed

lemma memory_mb_sample: "round_double (of_nat 52428800 / of_nat MB) = 50"
proof -
  have "round_double (of_int 50) = of_int 50" by (rule round_double_int) simp
  then show ?thesis by (simp add: MB_def)
qed

section \<open>Properties of the sampler\<close>

lemma mset_py_sort_key: "mset (py_sort_key f r xs) = mset xs"
  by (simp add: py_sort_key_def)

lemma set_py_sort_key: "set (py_sort_key f r xs) = set xs"
  by (simp add: py_sort_key_def)

lemma length_py_sort_key: "length (py_sort_key f r xs) = length xs"
  by (simp add: py_sort_key_def)

lemma py_sort_key_descending:
  "sorted_wrt (\<lambda>a b. f b \<le> f a) (py_sort_key f True xs)"
proof -
  have "sorted (map f (sort_key f (rev xs)))" by simp
  then have "sorted_wrt (\<lambda>a b. f a \<le> f b) (sort_key f (rev xs))"
    by (simp add: sorted_map)
  then show ?thesis
    by (simp add: py_sort_key_def sorted_wrt_rev)
qed

lemma py_sort_key_ascending:
  "sorted_wrt (\<lambda>a b. f a \<le> f b) (py_sort_key f False xs)"
proof -
  have "sorted (map f (sort_key f xs))" by simp
  then show ?thesis by (simp add: py_sort_key_def sorted_map)
qed

lemma sorted_wrt_take_desc:
  "sorted_wrt P xs \<Longrightarrow> sorted_wrt P (take n xs)"
  by (metis append_take_drop_id sorted_wrt_append)

lemma collect_acc:
  "collect nc rs acc = (case collect nc rs [] of Inl e \<Rightarrow> Inl e | Inr ps \<Rightarrow> Inr (acc @ ps))"
proof (induction rs arbitrary: acc)
  case Nil
  show ?case by simp
next
  case (Cons r rs)
  note IH = Cons.IH
  show ?case
  proof (cases "read_process nc r")
    case (Inl e)
    then show ?thesis using IH [of acc] by simp
  next
    case (Inr o1)
    show ?thesis
    proof (cases o1)
      case None
      with Inr show ?thesis using IH [of acc] by simp
    next
      case (Some p)
      with Inr show ?thesis
        using IH [of "acc @ [p]"] IH [of "[p]"] by (simp split: sum.splits)
    qed
  qed
qed

lemma read_process_SomeD:
  assumes "read_process nc r = Inr (Some p)"
  shows "\<exists>info raw n. r = Inr info \<and> name info = Some (p_name p) \<and> lower (p_name p) \<notin> set idle_names
           \<and> cpu_percent info = Some raw \<and> nc = Some n \<and> n \<noteq> 0
           \<and> p_pid p = pid info \<and> p_memory_info p = memory_info info \<and> p_status p = status info
           \<and> normalize (Some raw) nc = Inr (p_cpu_percent p)
           \<and> (\<exists>d. float_of_nat n = Inr d \<and> d \<noteq> 0 \<and> p_cpu_percent p = round_double (raw / d))"
proof -
  from assms obtain info nm c where r: "r = Inr info" and nm: "name info = Some nm"
    and low: "lower nm \<notin> set idle_names"
    and c: "normalize (cpu_percent info) nc = Inr c"
    and p: "p = \<lparr>p_pid = pid info, p_name = nm, p_cpu_percent = c,
                 p_memory_info = memory_info info, p_status = status info\<rparr>"
    by (auto simp: read_process_def split: sum.splits option.splits if_splits)
  from c obtain raw n d where raw: "cpu_percent info = Some raw" and n: "nc = Some n"
    and d: "float_of_nat n = Inr d" "d \<noteq> 0" and cd: "c = round_double (raw / d)"
    by (auto simp: normalize_def split: option.splits sum.splits if_splits)
  have "n \<noteq> 0"
  proof
    assume "n = 0"
    with d show False by (simp add: float_of_nat_def round_double_def)
  qed
  with r nm low c p raw n d cd show ?thesis by auto
qed

lemma collect_members:
  "collect nc rs acc = Inr ps \<Longrightarrow> p \<in> set ps \<Longrightarrow>
     p \<in> set acc \<or> (\<exists>r \<in> set rs. read_process nc r = Inr (Some p))"
proof (induction rs arbitrary: acc)
  case Nil
  then show ?case by simp
next
  case (Cons r rs)
  show ?case
  proof (cases "read_process nc r")
    case (Inl e)
    with Cons.prems have "collect nc rs acc = Inr ps"
      by (simp split: if_splits)
    from Cons.IH [OF this Cons.prems(2)] show ?thesis by auto
  next
    case (Inr o1)
    show ?thesis
    proof (cases o1)
      case None
      with Inr Cons.prems have "collect nc rs acc = Inr ps" by simp
      from Cons.IH [OF this Cons.prems(2)] show ?thesis by auto
    next
      case (Some q)
      with Inr Cons.prems have "collect nc rs (acc @ [q]) = Inr ps" by simp
      from Cons.IH [OF this Cons.prems(2)] Inr Some show ?thesis by auto
    qed
  qed
qed

lemma enumerate_members:
  assumes "enumerate_processes nc env = Inr ps" "p \<in> set ps"
  shows "\<exists>r \<in> set (process_iter_items env). read_process nc r = Inr (Some p)"
proof -
  from assms(1) have "collect nc (process_iter_items env) [] = Inr ps"
    by (simp add: enumerate_processes_def split: sum.splits option.splits)
  from collect_members [OF this assms(2)] show ?thesis by simp
qed

lemma put_in_cycle:
  assumes "Put (cpu, mem, ps) \<in> set (update_cycle nc env)"
  shows "\<exists>ps0. enumerate_processes nc env = Inr ps0
           \<and> ps = take 50 (py_sort_key p_cpu_percent True ps0)
           \<and> cpu_percent_read env = Inr cpu \<and> virtual_memory_read env = Inr mem"
  using assms
  by (auto simp: update_cycle_def try_cycle_def Let_def
           split: sum.splits option.splits if_splits prod.splits)

lemma put_in_loop:
  "ev \<in> set (fst (update_loop nc envs)) \<Longrightarrow>
     \<exists>env \<in> set envs. ev \<in> set (update_cycle nc env)"
  by (induction envs) (auto split: if_splits prod.splits)

text \<open>
  C1. Every snapshot the sampler loop puts on the queue holds at most 50 processes, in
  descending order of normalized CPU percent (each record's value is at least its
  successor's), none of them named, in lower case, \<^verbatim>\<open>system idle process\<close> or \<^verbatim>\<open>idle\<close>.
  The cut to 50 comes after the sort: the snapshot is the front of the sorted list of all
  records of its cycle, and no record cut off has a higher value than a record kept.
\<close>

theorem snapshot_invariants:
  assumes "Put (cpu, mem, ps) \<in> set (fst (update_loop nc envs))"
  shows "length ps \<le> 50
    \<and> (\<forall>i. Suc i < length ps \<longrightarrow> p_cpu_percent (ps ! Suc i) \<le> p_cpu_percent (ps ! i))
    \<and> (\<forall>p \<in> set ps. lower (p_name p) \<noteq> ''system idle process'' \<and> lower (p_name p) \<noteq> ''idle'')
    \<and> (\<exists>env \<in> set envs. \<exists>all_ps.
          enumerate_processes nc env = Inr all_ps
          \<and> ps = take 50 (py_sort_key p_cpu_percent True all_ps)
          \<and> (\<forall>p \<in> set ps. \<forall>q \<in> set (drop 50 (py_sort_key p_cpu_percent True all_ps)).
                p_cpu_percent q \<le> p_cpu_percent p))"
proof -
  from put_in_loop [OF assms] obtain env where
    env: "env \<in> set envs" and "Put (cpu, mem, ps) \<in> set (update_cycle nc env)" by blast
  from put_in_cycle [OF this(2)] obtain ps0 where
    en: "enumerate_processes nc env = Inr ps0"
    and ps: "ps = take 50 (py_sort_key p_cpu_percent True ps0)" by blast
  let ?sorted = "py_sort_key p_cpu_percent True ps0"
  have len: "length ps \<le> 50" by (simp add: ps)
  have all_sorted: "sorted_wrt (\<lambda>a b. p_cpu_percent b \<le> p_cpu_percent a) ?sorted"
    by (rule py_sort_key_descending)
  then have "sorted_wrt (\<lambda>a b. p_cpu_percent b \<le> p_cpu_percent a) ps"
    unfolding ps by (rule sorted_wrt_take_desc)
  then have ord: "\<forall>i. Suc i < length ps \<longrightarrow> p_cpu_percent (ps ! Suc i) \<le> p_cpu_percent (ps ! i)"
    by (simp add: sorted_wrt_iff_nth_less)
  have names: "\<forall>p \<in> set ps. lower (p_name p) \<noteq> ''system idle process'' \<and> lower (p_name p) \<noteq> ''idle''"
  proof
    fix p assume "p \<in> set ps"
    then have "p \<in> set ps0"
      unfolding ps using set_py_sort_key [of p_cpu_percent True ps0] by (auto dest: in_set_takeD)
    from enumerate_members [OF en this] obtain r where
      "read_process nc r = Inr (Some p)" by blast
    from read_process_SomeD [OF this] have "lower (p_name p) \<notin> set idle_names" by blast
    then show "lower (p_name p) \<noteq> ''system idle process'' \<and> lower (p_name p) \<noteq> ''idle''"
      by (simp add: idle_names_def)
  qed
  from all_sorted
  have "sorted_wrt (\<lambda>a b. p_cpu_percent b \<le> p_cpu_percent a) (take 50 ?sorted @ drop 50 ?sorted)"
    by simp
  then have cut: "\<forall>p \<in> set ps. \<forall>q \<in> set (drop 50 ?sorted). p_cpu_percent q \<le> p_cpu_percent p"
    unfolding ps sorted_wrt_append by blast
  from env en ps cut
  have "\<exists>env \<in> set envs. \<exists>all_ps.
          enumerate_processes nc env = Inr all_ps
          \<and> ps = take 50 (py_sort_key p_cpu_percent True all_ps)
          \<and> (\<forall>p \<in> set ps. \<forall>q \<in> set (drop 50 (py_sort_key p_cpu_percent True all_ps)).
                p_cpu_percent q \<le> p_cpu_percent p)"
    by blast
  with len ord names show ?thesis by blast
qed

lemma lower_sample_names:
  "lower ''System Idle Process'' = ''system idle process''"
  "lower ''worker'' = ''worker''"
  "lower ''System'' = ''system''"
  by code_simp+

lemma sample_enumerate:
  "enumerate_processes (Some 4) sample_env =
     Inr [\<lparr>p_pid = 1234, p_name = ''worker'', p_cpu_percent = 100,
            p_memory_info = Some 52428800, p_status = Some ''running''\<rparr>,
          \<lparr>p_pid = 4, p_name = ''System'', p_cpu_percent = 200,
            p_memory_info = None, p_status = Some ''sleeping''\<rparr>]"
  by (simp add: enumerate_processes_def sample_env_def read_process_def normalize_sample
        lower_sample_names idle_names_def)

lemma sample_env_fields:
  "running sample_env" "cpu_percent_read sample_env = Inr 25"
  "virtual_memory_read sample_env = Inr sample_memory"
  "process_iter_raise sample_env = None" "refresh_rate_get sample_env = Inr (1 / 2)"
  by (simp_all add: sample_env_def)

lemma sample_cycle:
  "update_cycle (Some 4) sample_env = [Put (25, sample_memory, sample_processes), Sleep (1 / 2)]"
  by (simp add: update_cycle_def try_cycle_def sample_enumerate sample_env_fields
        py_sort_key_def sample_processes_def)

theorem snapshot_invariants_witness:
  "Put (25, sample_memory, sample_processes) \<in> set (fst (update_loop (Some 4) [sample_env]))
   \<and> length sample_processes \<le> 50
   \<and> p_cpu_percent (sample_processes ! Suc 0) \<le> p_cpu_percent (sample_processes ! 0)
   \<and> lower (p_name (sample_processes ! 0)) \<noteq> ''system idle process''
   \<and> lower (p_name (sample_processes ! 0)) \<noteq> ''idle''"
proof -
  have put: "Put (25, sample_memory, sample_processes)
               \<in> set (fst (update_loop (Some 4) [sample_env]))"
    by (simp add: sample_cycle sample_env_fields)
  note inv = snapshot_invariants [OF put]
  have two: "Suc 0 < length sample_processes" and first: "sample_processes ! 0 \<in> set sample_processes"
    by (simp_all add: sample_processes_def)
  from inv have "length sample_processes \<le> 50" by blast
  moreover from inv two
  have "p_cpu_percent (sample_processes ! Suc 0) \<le> p_cpu_percent (sample_processes ! 0)"
    by blast
  moreover from inv first
  have "lower (p_name (sample_processes ! 0)) \<noteq> ''system idle process''
        \<and> lower (p_name (sample_processes ! 0)) \<noteq> ''idle''"
    by blast
  ultimately show ?thesis using put by blast
qed

lemma tenth_third:
  "normalize (Some (3602879701896397 / 36028797018963968)) (Some 3)
     = Inr (4803839602528529 / 144115188075855872)"
proof -
  let ?x = "3602879701896397 / 36028797018963968 / 3 :: rat"
  have "round_double ?x = of_int (round_half_even (?x / 2 powi (max (- 5) (- 1022) - 52)))
                             * 2 powi (max (- 5) (- 1022) - 52)"
    by (rule round_double_eq) simp_all
  moreover have "round_half_even (?x / 2 powi (max (- 5) (- 1022) - 52)) = 4803839602528529"
    by (rule round_half_even_below) simp_all
  ultimately have "round_double ?x = 4803839602528529 / 144115188075855872"
    by simp
  then show ?thesis by (simp add: normalize_small)
qed

lemma tenth_cycle:
  "update_cycle (Some 3) tenth_env =
     [Put (25, sample_memory,
           [\<lparr>p_pid = 1234, p_name = ''worker'',
             p_cpu_percent = 4803839602528529 / 144115188075855872,
             p_memory_info = Some 52428800, p_status = Some ''running''\<rparr>]),
      Sleep (1 / 2)]"
proof -
  have "enumerate_processes (Some 3) tenth_env =
          Inr [\<lparr>p_pid = 1234, p_name = ''worker'',
                 p_cpu_percent = 4803839602528529 / 144115188075855872,
                 p_memory_info = Some 52428800, p_status = Some ''running''\<rparr>]"
    by (simp add: enumerate_processes_def tenth_env_def sample_env_def read_process_def
          tenth_third lower_sample_names idle_names_def)
  moreover have "cpu_percent_read tenth_env = Inr 25"
    "virtual_memory_read tenth_env = Inr sample_memory"
    "refresh_rate_get tenth_env = Inr (1 / 2)"
    by (simp_all add: tenth_env_def sample_env_def)
  ultimately show ?thesis
    by (simp add: update_cycle_def try_cycle_def py_sort_key_def)
qed


text \<open>
  C4, as the code has it. The CPU value of every record in a published snapshot is the
  float quotient of the raw reading of a process enumerated in that cycle by the core
  count the loop was started with: the double nearest to the exact quotient, which
  differs from it by at most the fraction \<open>2 ^ -53\<close> of its size (for a core count below
  \<open>2 ^ 53\<close> and a quotient in the normal range). A raw reading of 400 on 4 cores is
  normalized to exactly 100.
\<close>

theorem normalized_cpu_percent:
  assumes "Put (cpu, mem, ps) \<in> set (fst (update_loop nc envs))" and "p \<in> set ps"
  shows "(\<exists>env \<in> set envs. \<exists>info \<in> Inr -` set (process_iter_items env). \<exists>raw n d.
            pid info = p_pid p \<and> name info = Some (p_name p)
            \<and> cpu_percent info = Some raw \<and> nc = Some n \<and> n \<noteq> 0
            \<and> float_of_nat n = Inr d
            \<and> p_cpu_percent p = round_double (raw / d)
            \<and> (n < 2 ^ 53 \<longrightarrow>
                  d = of_nat n
                  \<and> (2 powi (- 1022) \<le> \<bar>raw / of_nat n\<bar> \<longrightarrow>
                        \<bar>p_cpu_percent p - raw / of_nat n\<bar> \<le> \<bar>raw / of_nat n\<bar> / 2 ^ 53)))
         \<and> normalize (Some 400) (Some 4) = Inr 100"
proof -
  from put_in_loop [OF assms(1)] obtain env where
    env: "env \<in> set envs" and "Put (cpu, mem, ps) \<in> set (update_cycle nc env)" by blast
  from put_in_cycle [OF this(2)] obtain ps0 where
    en: "enumerate_processes nc env = Inr ps0"
    and ps: "ps = take 50 (py_sort_key p_cpu_percent True ps0)" by blast
  from assms(2) have "p \<in> set ps0"
    unfolding ps using set_py_sort_key [of p_cpu_percent True ps0] by (auto dest: in_set_takeD)
  from enumerate_members [OF en this] obtain r where
    r: "r \<in> set (process_iter_items env)" and "read_process nc r = Inr (Some p)" by blast
  from read_process_SomeD [OF this(2)] obtain info raw n d where
    ri: "r = Inr info" and nm: "name info = Some (p_name p)"
    and raw: "cpu_percent info = Some raw" and n: "nc = Some n" "n \<noteq> 0"
    and pid: "p_pid p = pid info"
    and d: "float_of_nat n = Inr d" and c: "p_cpu_percent p = round_double (raw / d)"
    by blast
  have small: "n < 2 ^ 53 \<longrightarrow>
                  d = of_nat n
                  \<and> (2 powi (- 1022) \<le> \<bar>raw / of_nat n\<bar> \<longrightarrow>
                        \<bar>p_cpu_percent p - raw / of_nat n\<bar> \<le> \<bar>raw / of_nat n\<bar> / 2 ^ 53)"
  proof
    assume "n < 2 ^ 53"
    from float_of_nat_small [OF this] d have dn: "d = of_nat n" by simp
    with c round_double_error [of "raw / of_nat n"]
    show "d = of_nat n
          \<and> (2 powi (- 1022) \<le> \<bar>raw / of_nat n\<bar> \<longrightarrow>
                \<bar>p_cpu_percent p - raw / of_nat n\<bar> \<le> \<bar>raw / of_nat n\<bar> / 2 ^ 53)"
      by simp
  qed
  from r ri have mem: "info \<in> Inr -` set (process_iter_items env)" by simp
  from nm raw n pid d c small
  have "pid info = p_pid p \<and> name info = Some (p_name p)
            \<and> cpu_percent info = Some raw \<and> nc = Some n \<and> n \<noteq> 0
            \<and> float_of_nat n = Inr d
            \<and> p_cpu_percent p = round_double (raw / d)
            \<and> (n < 2 ^ 53 \<longrightarrow>
                  d = of_nat n
                  \<and> (2 powi (- 1022) \<le> \<bar>raw / of_nat n\<bar> \<longrightarrow>
                        \<bar>p_cpu_percent p - raw / of_nat n\<bar> \<le> \<bar>raw / of_nat n\<bar> / 2 ^ 53))"
    by (simp only: simp_thms)
  then have "\<exists>raw n d.
            pid info = p_pid p \<and> name info = Some (p_name p)
            \<and> cpu_percent info = Some raw \<and> nc = Some n \<and> n \<noteq> 0
            \<and> float_of_nat n = Inr d
            \<and> p_cpu_percent p = round_double (raw / d)
            \<and> (n < 2 ^ 53 \<longrightarrow>
                  d = of_nat n
                  \<and> (2 powi (- 1022) \<le> \<bar>raw / of_nat n\<bar> \<longrightarrow>
                        \<bar>p_cpu_percent p - raw / of_nat n\<bar> \<le> \<bar>raw / of_nat n\<bar> / 2 ^ 53))"
    by (rule_tac x = raw in exI, rule_tac x = n in exI, rule_tac x = d in exI)
  with env mem
  have "\<exists>env \<in> set envs. \<exists>info \<in> Inr -` set (process_iter_items env). \<exists>raw n d.
            pid info = p_pid p \<and> name info = Some (p_name p)
            \<and> cpu_percent info = Some raw \<and> nc = Some n \<and> n \<noteq> 0
            \<and> float_of_nat n = Inr d
            \<and> p_cpu_percent p = round_double (raw / d)
            \<and> (n < 2 ^ 53 \<longrightarrow>
                  d = of_nat n
                  \<and> (2 powi (- 1022) \<le> \<bar>raw / of_nat n\<bar> \<longrightarrow>
                        \<bar>p_cpu_percent p - raw / of_nat n\<bar> \<le> \<bar>raw / of_nat n\<bar> / 2 ^ 53))"
    by (rule_tac x = env in bexI, rule_tac x = info in bexI)
  with normalize_sample(1) show ?thesis by blast
qed

theorem normalized_cpu_percent_witness:
  "Put (25, sample_memory, sample_processes) \<in> set (fst (update_loop (Some 4) [sample_env]))
   \<and> sample_processes ! Suc 0 \<in> set sample_processes
   \<and> p_cpu_percent (sample_processes ! Suc 0) = round_double (400 / 4)
   \<and> p_cpu_percent (sample_processes ! Suc 0) = 100
   \<and> normalize (Some 400) (Some 4) = Inr 100"
proof -
  have put: "Put (25, sample_memory, sample_processes)
               \<in> set (fst (update_loop (Some 4) [sample_env]))"
    by (simp add: sample_cycle sample_env_fields)
  have mem: "sample_processes ! Suc 0 \<in> set sample_processes"
    by (simp add: sample_processes_def)
  have val: "p_cpu_percent (sample_processes ! Suc 0) = 100"
    by (simp add: sample_processes_def)
  from normalized_cpu_percent [OF put mem]
  have n: "normalize (Some 400) (Some 4) = Inr 100" by blast
  then have "round_double (400 / 4) = 100"
    by (simp add: normalize_small)
  with put mem val n show ?thesis by simp
qed

text \<open>
  C4 with the exact quotient fails on three cores at the raw reading 0.1: the value stored
  is the double \<open>4803839602528529 / 2 ^ 57\<close>, which is not a third of the reading.
\<close>

theorem exact_quotient_counterexample:
  "update_cycle (Some 3) tenth_env =
     [Put (25, sample_memory,
           [\<lparr>p_pid = 1234, p_name = ''worker'',
             p_cpu_percent = 4803839602528529 / 144115188075855872,
             p_memory_info = Some 52428800, p_status = Some ''running''\<rparr>]),
      Sleep (1 / 2)]
   \<and> (4803839602528529 / 144115188075855872 :: rat)
       \<noteq> 3602879701896397 / 36028797018963968 / 3"
  by (simp add: tenth_cycle)

lemma collect_readable:
  "\<forall>r \<in> set rs. \<not> aborting_read nc r \<Longrightarrow> collect nc rs acc = Inr (acc @ readable_records nc rs)"
proof (induction rs arbitrary: acc)
  case Nil
  show ?case by (simp add: readable_records_def)
next
  case (Cons r rs)
  from Cons.prems have rest: "\<forall>r \<in> set rs. \<not> aborting_read nc r"
    and r: "\<not> aborting_read nc r" by simp_all
  note IH = Cons.IH [OF rest]
  show ?case
  proof (cases "read_process nc r")
    case (Inl e)
    with r have "kind e = NoSuchProcess \<or> kind e = AccessDenied"
      by (simp add: aborting_read_def)
    with Inl show ?thesis using IH [of acc] by (simp add: readable_records_def)
  next
    case (Inr o1)
    then show ?thesis using IH [of acc] IH [of "acc @ [the o1]"]
      by (cases o1) (simp_all add: readable_records_def)
  qed
qed

lemma collect_drop_skipped:
  "collect nc (filter (\<lambda>r. \<not> skipped_read nc r) rs) acc = collect nc rs acc"
proof (induction rs arbitrary: acc)
  case Nil
  show ?case by simp
next
  case (Cons r rs)
  show ?case
  proof (cases "skipped_read nc r")
    case True
    then obtain e where "read_process nc r = Inl e"
      and "kind e = NoSuchProcess \<or> kind e = AccessDenied"
      by (auto simp: skipped_read_def split: sum.splits)
    with True show ?thesis using Cons.IH [of acc] by simp
  next
    case False
    have "collect nc (r # filter (\<lambda>r. \<not> skipped_read nc r) rs) acc = collect nc (r # rs) acc"
      using Cons.IH by (simp split: sum.splits option.splits)
    with False show ?thesis by simp
  qed
qed

lemma cycle_without_abort:
  assumes "cpu_percent_read env = Inr cpu" "virtual_memory_read env = Inr mem"
    and "process_iter_raise env = None" "refresh_rate_get env = Inr d" "0 \<le> d"
    and "\<forall>r \<in> set (process_iter_items env). \<not> aborting_read nc r"
  shows "update_cycle nc env =
           [Put (cpu, mem, take 50 (py_sort_key p_cpu_percent True
                                      (readable_records nc (process_iter_items env)))),
            Sleep d]"
proof -
  from collect_readable [OF assms(6), of "[]"] assms(3)
  have "enumerate_processes nc env = Inr (readable_records nc (process_iter_items env))"
    by (simp add: enumerate_processes_def)
  with assms(1,2,4,5) show ?thesis
    by (simp add: update_cycle_def try_cycle_def)
qed

lemma cycle_drop_skipped:
  "update_cycle nc (env\<lparr>process_iter_items :=
                         filter (\<lambda>r. \<not> skipped_read nc r) (process_iter_items env)\<rparr>)
     = update_cycle nc env"
proof -
  let ?env = "env\<lparr>process_iter_items :=
                    filter (\<lambda>r. \<not> skipped_read nc r) (process_iter_items env)\<rparr>"
  have "enumerate_processes nc ?env = enumerate_processes nc env"
    by (simp add: enumerate_processes_def collect_drop_skipped split: sum.splits)
  then have "try_cycle nc ?env = try_cycle nc env"
    by (simp add: try_cycle_def split: sum.splits)
  then show ?thesis by (simp add: update_cycle_def)
qed

lemma readable_records_drop_skipped:
  "readable_records nc (filter (\<lambda>r. \<not> skipped_read nc r) rs) = readable_records nc rs"
  by (induction rs) (auto simp: readable_records_def skipped_read_def split: sum.splits)

lemma sample_no_abort:
  "\<forall>r \<in> set (process_iter_items sample_env). \<not> aborting_read (Some 4) r"
  by (simp add: sample_env_def aborting_read_def read_process_def normalize_sample
        lower_sample_names idle_names_def)

lemma denied_reads:
  "read_process (Some 4) (process_iter_items denied_env ! 0)
     = Inl (Exn TypeError (''unsupported operand type(s) for /: 'NoneType' and 'int'' @ [CHR 0x27]))"
  "aborting_read (Some 4) (process_iter_items denied_env ! 0)"
  "\<not> skipped_read (Some 4) (process_iter_items denied_env ! 0)"
  by (simp_all add: denied_env_def aborting_read_def skipped_read_def read_process_def
        normalize_def lower_sample_names idle_names_def)

lemma denied_cycle:
  "update_cycle (Some 4) denied_env =
     [Print (''Error in update thread: unsupported operand type(s) for /: 'NoneType' and 'int''
               @ [CHR 0x27]),
      Sleep 1]"
proof -
  have "enumerate_processes (Some 4) denied_env =
          Inl (Exn TypeError (''unsupported operand type(s) for /: 'NoneType' and 'int'' @ [CHR 0x27]))"
    by (simp add: enumerate_processes_def denied_env_def read_process_def normalize_def
          lower_sample_names idle_names_def)
  moreover have "cpu_percent_read denied_env = Inr 25"
    "virtual_memory_read denied_env = Inr sample_memory"
    by (simp_all add: denied_env_def sample_env_def)
  ultimately show ?thesis
    by (simp add: update_cycle_def try_cycle_def)
qed

lemma denied_dropped_cycle:
  "update_cycle (Some 4) (denied_env\<lparr>process_iter_items := tl (process_iter_items denied_env)\<rparr>)
     = [Put (25, sample_memory,
             [\<lparr>p_pid = 1234, p_name = ''worker'', p_cpu_percent = 100,
               p_memory_info = Some 52428800, p_status = Some ''running''\<rparr>]),
        Sleep (1 / 2)]"
proof -
  let ?env = "denied_env\<lparr>process_iter_items := tl (process_iter_items denied_env)\<rparr>"
  have "enumerate_processes (Some 4) ?env =
          Inr [\<lparr>p_pid = 1234, p_name = ''worker'', p_cpu_percent = 100,
                 p_memory_info = Some 52428800, p_status = Some ''running''\<rparr>]"
    by (simp add: enumerate_processes_def denied_env_def sample_env_def read_process_def
          normalize_sample lower_sample_names idle_names_def)
  moreover have "cpu_percent_read ?env = Inr 25" "virtual_memory_read ?env = Inr sample_memory"
    "refresh_rate_get ?env = Inr (1 / 2)"
    by (simp_all add: denied_env_def sample_env_def)
  ultimately show ?thesis
    by (simp add: update_cycle_def try_cycle_def py_sort_key_def)
qed

text \<open>
  C6 is not what the code does when access to an attribute of a process is denied. The
  attribute then arrives as \<^verbatim>\<open>None\<close>, the division (or \<^verbatim>\<open>.lower()\<close>) raises an exception
  that the inner handler does not name, and the whole cycle is aborted: the error is
  printed, the loop sleeps a second, and no snapshot is published, although the other
  process was read. Without the denied process the same cycle publishes its snapshot.
\<close>

theorem denied_attribute_aborts_cycle:
  "update_cycle (Some 4) denied_env =
     [Print (''Error in update thread: unsupported operand type(s) for /: 'NoneType' and 'int''
               @ [CHR 0x27]),
      Sleep 1]
   \<and> snapshots_of (update_cycle (Some 4) denied_env) = []
   \<and> aborting_read (Some 4) (process_iter_items denied_env ! 0)
   \<and> snapshots_of
        (update_cycle (Some 4)
           (denied_env\<lparr>process_iter_items := tl (process_iter_items denied_env)\<rparr>))
       = [(25, sample_memory,
           [\<lparr>p_pid = 1234, p_name = ''worker'', p_cpu_percent = 100,
             p_memory_info = Some 52428800, p_status = Some ''running''\<rparr>])]"
  by (simp add: denied_cycle denied_dropped_cycle denied_reads(2) snapshots_of_def)

lemma update_loop_takeWhile:
  "update_loop nc envs =
     (concat (map (update_cycle nc) (takeWhile running envs)),
      if list_all running envs then Looping else Exited)"
  by (induction envs) (simp_all split: prod.splits)

lemma update_cycle_error:
  "try_cycle nc env = (evs, Some e) \<Longrightarrow>
     update_cycle nc env = evs @ [Print (''Error in update thread: '' @ msg e), Sleep 1]"
  by (simp add: update_cycle_def)

lemma try_cycle_events:
  "fst (try_cycle nc env) = [] \<or> (\<exists>s. fst (try_cycle nc env) = [Put s])
     \<or> (\<exists>s d. fst (try_cycle nc env) = [Put s, Sleep d] \<and> snd (try_cycle nc env) = None
            \<and> refresh_rate_get env = Inr d \<and> 0 \<le> d)"
  by (auto simp: try_cycle_def Let_def split: sum.splits)

lemma failing_cycle:
  "update_cycle (Some 4) failing_env =
     [Print ''Error in update thread: metrics backend failed'', Sleep 1]"
  by (simp add: update_cycle_def try_cycle_def failing_env_def)

lemma try_cycle_refresh_rate:
  "try_cycle nc (env\<lparr>refresh_rate_get := Inr d\<rparr>) =
     (case try_cycle nc env of
        ([], x) \<Rightarrow> ([], x)
      | (ev # _, _) \<Rightarrow>
          if d < 0 then ([ev], Some (Exn ValueError ''sleep length must be non-negative''))
          else ([ev, Sleep d], None))"
proof -
  have "enumerate_processes nc (env\<lparr>refresh_rate_get := Inr d\<rparr>) = enumerate_processes nc env"
    by (simp add: enumerate_processes_def split: sum.splits)
  then show ?thesis
    by (simp add: try_cycle_def Let_def split: sum.splits)
qed

lemma sample_try_cycle:
  "try_cycle (Some 4) sample_env = ([Put (25, sample_memory, sample_processes), Sleep (1 / 2)], None)"
  by (simp add: try_cycle_def sample_enumerate sample_env_fields
        py_sort_key_def sample_processes_def)

lemma slow_cycle:
  "update_cycle (Some 4) slow_env = [Put (25, sample_memory, sample_processes), Sleep 7]"
  by (simp add: update_cycle_def slow_env_def try_cycle_refresh_rate sample_try_cycle)

lemma retuned_cycle:
  "update_cycle (Some 4) retuned_env = [Put (25, sample_memory, sample_processes), Sleep 2]"
  by (simp add: update_cycle_def retuned_env_def try_cycle_refresh_rate sample_try_cycle)

lemma env_flags:
  "running failing_env" "\<not> running stopped_env" "running slow_env" "running retuned_env"
  "refresh_rate_get slow_env = Inr 7" "refresh_rate_get retuned_env = Inr 2"
  by (simp_all add: failing_env_def stopped_env_def slow_env_def retuned_env_def sample_env_def)

text \<open>
  C7. No error ends the sampler loop. A cycle whose body raises reports the error,
  sleeps the fixed second and is over; the loop then goes on with the next iteration, so
  that while the flag is up it runs every cycle of the script, failed or not. It has
  exited exactly when an iteration found the flag down, and then at the first such
  iteration.
\<close>

theorem loop_survives_errors:
  "(snd (try_cycle nc env) = Some e \<longrightarrow>
      update_cycle nc env =
        fst (try_cycle nc env) @ [Print (''Error in update thread: '' @ msg e), Sleep 1])
   \<and> (running env \<longrightarrow>
        update_loop nc (env # envs) =
          (update_cycle nc env @ fst (update_loop nc envs), snd (update_loop nc envs)))
   \<and> (list_all running envs \<longrightarrow>
        update_loop nc envs = (concat (map (update_cycle nc) envs), Looping))
   \<and> (snd (update_loop nc envs) = Exited \<longleftrightarrow> (\<exists>env \<in> set envs. \<not> running env))
   \<and> fst (update_loop nc envs) = concat (map (update_cycle nc) (takeWhile running envs))"
proof -
  have "snd (try_cycle nc env) = Some e \<longrightarrow>
      update_cycle nc env =
        fst (try_cycle nc env) @ [Print (''Error in update thread: '' @ msg e), Sleep 1]"
    by (cases "try_cycle nc env") (simp add: update_cycle_def)
  moreover have "running env \<longrightarrow>
        update_loop nc (env # envs) =
          (update_cycle nc env @ fst (update_loop nc envs), snd (update_loop nc envs))"
    by (simp split: prod.splits)
  moreover have "list_all running envs \<longrightarrow>
        update_loop nc envs = (concat (map (update_cycle nc) envs), Looping)"
    by (simp add: update_loop_takeWhile list_all_iff takeWhile_eq_all_conv [THEN iffD2])
  moreover have "snd (update_loop nc envs) = Exited \<longleftrightarrow> (\<exists>env \<in> set envs. \<not> running env)"
    by (simp add: update_loop_takeWhile list_all_iff)
  moreover have "fst (update_loop nc envs) = concat (map (update_cycle nc) (takeWhile running envs))"
    by (simp add: update_loop_takeWhile)
  ultimately show ?thesis by blast
qed

theorem loop_survives_errors_witness:
  "snd (try_cycle (Some 4) failing_env) = Some (Exn OtherException ''metrics backend failed'')
   \<and> update_loop (Some 4) [failing_env, sample_env] =
       ([Print ''Error in update thread: metrics backend failed'', Sleep 1,
         Put (25, sample_memory, sample_processes), Sleep (1 / 2)], Looping)
   \<and> update_loop (Some 4) [failing_env, stopped_env, sample_env] =
       ([Print ''Error in update thread: metrics backend failed'', Sleep 1], Exited)"
proof -
  have err: "snd (try_cycle (Some 4) failing_env) = Some (Exn OtherException ''metrics backend failed'')"
    by (simp add: try_cycle_def failing_env_def)
  have all: "list_all running [failing_env, sample_env]"
    by (simp add: env_flags sample_env_fields)
  from loop_survives_errors [of "Some 4" failing_env _ "[failing_env, sample_env]"] all
  have "update_loop (Some 4) [failing_env, sample_env] =
          (concat (map (update_cycle (Some 4)) [failing_env, sample_env]), Looping)"
    by blast
  then have two: "update_loop (Some 4) [failing_env, sample_env] =
       ([Print ''Error in update thread: metrics backend failed'', Sleep 1,
         Put (25, sample_memory, sample_processes), Sleep (1 / 2)], Looping)"
    by (simp add: failing_cycle sample_cycle)
  have "update_loop (Some 4) [failing_env, stopped_env, sample_env] =
       ([Print ''Error in update thread: metrics backend failed'', Sleep 1], Exited)"
    by (simp add: env_flags failing_cycle)
  with err two show ?thesis by blast
qed

lemma sleep_in_cycle:
  assumes "Sleep d \<in> set (update_cycle nc env)"
  shows "(refresh_rate_get env = Inr d \<and> 0 \<le> d \<and> snd (try_cycle nc env) = None)
         \<or> (d = 1 \<and> snd (try_cycle nc env) \<noteq> None)"
  using assms
  by (auto simp: update_cycle_def try_cycle_def Let_def split: sum.splits if_splits)

lemma cycle_completes:
  assumes "snd (try_cycle nc env) = None"
  shows "\<exists>s d. refresh_rate_get env = Inr d \<and> 0 \<le> d \<and> update_cycle nc env = [Put s, Sleep d]"
  using assms
  by (auto simp: update_cycle_def try_cycle_def Let_def split: sum.splits if_splits)

lemma negative_cycle:
  "update_cycle (Some 4) negative_env =
     [Put (25, sample_memory, sample_processes),
      Print ''Error in update thread: sleep length must be non-negative'', Sleep 1]"
  by (simp add: update_cycle_def negative_env_def try_cycle_refresh_rate sample_try_cycle)

text \<open>
  C8 is not what the code does when the interval control holds a value outside
  [0.1, 5.0], which the spinbox accepts when it is typed: the sampler passes the value
  it reads to \<^verbatim>\<open>time.sleep\<close> as it is. With 7 in the control it sleeps 7 seconds; with -1
  the sleep raises, so that every cycle publishes its snapshot, reports an error and
  sleeps the fallback second.
\<close>

theorem unclamped_interval_is_slept:
  "refresh_rate_get slow_env = Inr 7
   \<and> update_cycle (Some 4) slow_env = [Put (25, sample_memory, sample_processes), Sleep 7]
   \<and> \<not> ((1::rat) / 10 \<le> 7 \<and> (7::rat) \<le> 5)
   \<and> refresh_rate_get negative_env = Inr (- 1)
   \<and> update_cycle (Some 4) negative_env =
       [Put (25, sample_memory, sample_processes),
        Print ''Error in update thread: sleep length must be non-negative'', Sleep 1]"
proof -
  have "refresh_rate_get negative_env = Inr (- 1)" by (simp add: negative_env_def)
  then show ?thesis by (simp add: slow_cycle negative_cycle env_flags)
qed

section \<open>Properties of the presenter\<close>

lemma digit_char_simps:
  "digit_char 0 = CHR ''0''" "digit_char 1 = CHR ''1''" "digit_char 2 = CHR ''2''"
  "digit_char 3 = CHR ''3''" "digit_char 4 = CHR ''4''" "digit_char 5 = CHR ''5''"
  "digit_char 6 = CHR ''6''" "digit_char 7 = CHR ''7''" "digit_char 8 = CHR ''8''"
  "digit_char 9 = CHR ''9''" "digit_char (Suc 0) = CHR ''1''"
  by code_simp+

lemma fmt_1f_tenths:
  assumes "0 \<le> x" "round_half_even (x * 10) = int t"
  shows "fmt_1f x = str_nat (t div 10) @ ''.'' @ str_nat (t mod 10)"
  using assms by (simp add: fmt_1f_def Let_def)

lemma str_nat_scenario:
  "str_nat 7629 = ''7629''" "str_nat 15258 = ''15258''" "str_nat 1234 = ''1234''"
  "str_nat 123 = ''123''" "str_nat 12 = ''12''" "str_nat 50 = ''50''" "str_nat 25 = ''25''"
  "str_nat 100 = ''100''" "str_nat 200 = ''200''" "str_nat 10 = ''10''" "str_nat 20 = ''20''"
  "str_nat 0 = ''0''" "str_nat 1 = ''1''" "str_nat 2 = ''2''" "str_nat 3 = ''3''"
  "str_nat 4 = ''4''" "str_nat 5 = ''5''"
  by (simp_all add: str_nat.simps digit_char_simps)

lemma fmt_1f_scenario:
  "fmt_1f (1234 / 100) = ''12.3''"
  "fmt_1f (3473401212609495 / 281474976710656) = ''12.3''"
  "fmt_1f 50 = ''50.0''" "fmt_1f 25 = ''25.0''" "fmt_1f 100 = ''100.0''" "fmt_1f 200 = ''200.0''"
proof -
  have "round_half_even (1234 / 100 * 10) = int 123"
    by (rule round_half_even_below) simp_all
  from fmt_1f_tenths [OF _ this] show "fmt_1f (1234 / 100) = ''12.3''"
    by (simp add: str_nat_scenario)
  have "round_half_even (3473401212609495 / 281474976710656 * 10) = int 123"
    by (rule round_half_even_below) simp_all
  from fmt_1f_tenths [OF _ this]
  show "fmt_1f (3473401212609495 / 281474976710656) = ''12.3''"
    by (simp add: str_nat_scenario)
  have "round_half_even (50 * 10) = int 500"
    using round_half_even_int [of 500] by simp
  from fmt_1f_tenths [OF _ this] show "fmt_1f 50 = ''50.0''"
    by (simp add: str_nat_scenario)
  have "round_half_even (25 * 10) = int 250"
    using round_half_even_int [of 250] by simp
  from fmt_1f_tenths [OF _ this] show "fmt_1f 25 = ''25.0''"
    by (simp add: str_nat_scenario)
  have "round_half_even (100 * 10) = int 1000"
    using round_half_even_int [of 1000] by simp
  from fmt_1f_tenths [OF _ this] show "fmt_1f 100 = ''100.0''"
    by (simp add: str_nat_scenario)
  have "round_half_even (200 * 10) = int 2000"
    using round_half_even_int [of 2000] by simp
  from fmt_1f_tenths [OF _ this] show "fmt_1f 200 = ''200.0''"
    by (simp add: str_nat_scenario)
qed

lemma memory_scenario:
  "memory_text \<lparr>total = 16000000000, used = 8000000000, percent = 50\<rparr>
     = ''Memory: 50.0% (7629 MB / 15258 MB)''"
proof -
  have "(8000000000::nat) div MB = 7629" "(16000000000::nat) div MB = 15258"
    by (simp_all add: MB_def)
  then show ?thesis
    by (simp add: memory_text_def fmt_1f_scenario str_nat_scenario)
qed

lemma row_scenario:
  "render_row \<lparr>p_pid = 1234, p_name = ''worker'', p_cpu_percent = 1234 / 100,
               p_memory_info = Some 52428800, p_status = Some ''running''\<rparr>
     = Inr (''1234'', ''worker'', ''12.3'', ''50.0'', ''running'')"
  "render_row \<lparr>p_pid = 1234, p_name = ''worker'',
               p_cpu_percent = 3473401212609495 / 281474976710656,
               p_memory_info = Some 52428800, p_status = Some ''running''\<rparr>
     = Inr (''1234'', ''worker'', ''12.3'', ''50.0'', ''running'')"
proof -
  note mb = memory_mb_sample
  have pid: "str_int 1234 = ''1234''"
    by (simp add: str_int_def str_nat_scenario)
  have cpu: "fmt_1f (617 / 50) = ''12.3''"
    using fmt_1f_scenario(1) by simp
  show "render_row \<lparr>p_pid = 1234, p_name = ''worker'', p_cpu_percent = 1234 / 100,
               p_memory_info = Some 52428800, p_status = Some ''running''\<rparr>
     = Inr (''1234'', ''worker'', ''12.3'', ''50.0'', ''running'')"
    unfolding render_row_def by (simp add: mb pid cpu fmt_1f_scenario del: of_nat_numeral)
  show "render_row \<lparr>p_pid = 1234, p_name = ''worker'',
               p_cpu_percent = 3473401212609495 / 281474976710656,
               p_memory_info = Some 52428800, p_status = Some ''running''\<rparr>
     = Inr (''1234'', ''worker'', ''12.3'', ''50.0'', ''running'')"
    unfolding render_row_def by (simp add: mb pid fmt_1f_scenario del: of_nat_numeral)
qed

lemma populate_fields:
  "num_cores (populate iid ps st) = num_cores st"
  "update_queue (populate iid ps st) = update_queue st"
  "cpu_label (populate iid ps st) = cpu_label st"
  "memory_label (populate iid ps st) = memory_label st"
  "process_count_label (populate iid ps st) = process_count_label st"
  "heading_command (populate iid ps st) = heading_command st"
  "dialogs (populate iid ps st) = dialogs st"
  "terminate_requests (populate iid ps st) = terminate_requests st"
  by (induction ps arbitrary: st; simp add: tree_insert_def split: sum.splits)+

lemma populate_rows:
  "map snd (tree (populate iid ps st)) = map snd (tree st) @ rendered_rows ps"
  by (induction ps arbitrary: st) (simp_all add: rendered_rows_def tree_insert_def split: sum.splits)

lemma show_snapshot_displayed:
  "displayed (show_snapshot iid snap st) = snapshot_view (num_cores st) snap"
  by (cases snap)
     (simp add: displayed_def show_snapshot_def snapshot_view_def populate_fields populate_rows)

lemma show_snapshot_fields:
  "num_cores (show_snapshot iid snap st) = num_cores st"
  "update_queue (show_snapshot iid snap st) = update_queue st"
  "heading_command (show_snapshot iid snap st) = heading_command st"
  "dialogs (show_snapshot iid snap st) = dialogs st"
  "terminate_requests (show_snapshot iid snap st) = terminate_requests st"
  by (cases snap; simp add: show_snapshot_def populate_fields)+

lemma drain_fields:
  "num_cores (drain iid q st) = num_cores st"
  "heading_command (drain iid q st) = heading_command st"
  "dialogs (drain iid q st) = dialogs st"
  "terminate_requests (drain iid q st) = terminate_requests st"
  by (induction q arbitrary: st; simp add: show_snapshot_fields)+

lemma drain_queue:
  "q \<noteq> [] \<Longrightarrow> update_queue (drain iid q st) = []"
proof (induction q arbitrary: st)
  case Nil
  then show ?case by simp
next
  case (Cons snap q)
  show ?case
  proof (cases "q = []")
    case True
    then show ?thesis by (simp add: show_snapshot_fields)
  next
    case False
    from Cons.IH [OF this] show ?thesis by simp
  qed
qed

lemma drain_last:
  "displayed (drain iid (q @ [snap]) st) = snapshot_view (num_cores st) snap"
  by (induction q arbitrary: st) (simp_all add: show_snapshot_displayed show_snapshot_fields)

lemma str_nat_Suc:
  "str_nat (Suc 0) = ''1''" "str_nat (Suc (Suc 0)) = ''2''"
  using str_nat_scenario(13,14) by (simp_all add: numeral_2_eq_2)

lemma newer_snapshot_view:
  "snapshot_view (Some 4) newer_snapshot =
     (''CPU: 25.0% (Cores: 4)'', ''Memory: 50.0% (7629 MB / 15258 MB)'', ''Processes: 2'',
      [(''1234'', ''worker'', ''100.0'', ''50.0'', ''running'')])"
proof -
  note mb = memory_mb_sample
  have rows: "rendered_rows sample_processes = [(''1234'', ''worker'', ''100.0'', ''50.0'', ''running'')]"
    unfolding rendered_rows_def sample_processes_def render_row_def
    by (simp add: mb str_int_def str_nat_scenario fmt_1f_scenario del: of_nat_numeral)
  have mem: "memory_text sample_memory = ''Memory: 50.0% (7629 MB / 15258 MB)''"
    using memory_scenario by (simp add: sample_memory_def)
  have cnt: "process_count_text sample_processes = ''Processes: 2''"
    by (simp add: process_count_text_def sample_processes_def str_nat_Suc)
  have cpu: "cpu_text (Some 4) 25 = ''CPU: 25.0% (Cores: 4)''"
    by (simp add: cpu_text_def str_nat_scenario fmt_1f_scenario)
  show ?thesis
    by (simp add: snapshot_view_def newer_snapshot_def rows mem cnt cpu)
qed

text \<open>
  C2. When a drain starts with the queue holding older snapshots followed by \<open>S2\<close> (the
  case in point is the single older snapshot \<open>S1\<close>), the labels and table rows shown
  after the drain are those of \<open>S2\<close> alone, the same as after a drain of a queue that
  held only \<open>S2\<close>, and the queue is empty.
\<close>

theorem drain_shows_latest:
  assumes "update_queue st = q @ [S2]"
  shows "displayed (check_updates iid st) = snapshot_view (num_cores st) S2
    \<and> displayed (check_updates iid st) = displayed (check_updates iid (st\<lparr>update_queue := [S2]\<rparr>))
    \<and> update_queue (check_updates iid st) = []"
proof -
  have one: "displayed (check_updates iid (st\<lparr>update_queue := [S2]\<rparr>))
               = snapshot_view (num_cores st) S2"
    using drain_last [of iid "[]" S2 "st\<lparr>update_queue := [S2]\<rparr>"]
    by (simp add: check_updates_def)
  from assms have "displayed (check_updates iid st) = snapshot_view (num_cores st) S2"
    by (simp add: check_updates_def drain_last)
  moreover from assms have "update_queue (check_updates iid st) = []"
    by (simp add: check_updates_def drain_queue)
  ultimately show ?thesis using one by simp
qed

theorem drain_shows_latest_witness:
  "update_queue ((init_monitor (Some 4))\<lparr>update_queue := [older_snapshot, newer_snapshot]\<rparr>)
     = [older_snapshot] @ [newer_snapshot]
   \<and> displayed (check_updates sample_iid
         ((init_monitor (Some 4))\<lparr>update_queue := [older_snapshot, newer_snapshot]\<rparr>))
       = (''CPU: 25.0% (Cores: 4)'', ''Memory: 50.0% (7629 MB / 15258 MB)'', ''Processes: 2'',
          [(''1234'', ''worker'', ''100.0'', ''50.0'', ''running'')])
   \<and> update_queue (check_updates sample_iid
         ((init_monitor (Some 4))\<lparr>update_queue := [older_snapshot, newer_snapshot]\<rparr>)) = []"
proof -
  let ?st = "(init_monitor (Some 4))\<lparr>update_queue := [older_snapshot, newer_snapshot]\<rparr>"
  have q: "update_queue ?st = [older_snapshot] @ [newer_snapshot]" by simp
  have "num_cores ?st = Some 4" by (simp add: init_monitor_def)
  with drain_shows_latest [OF q, of sample_iid] q show ?thesis
    by (simp add: newer_snapshot_view)
qed

lemma round_half_even_above:
  assumes "of_int f + 1 / 2 < y" "y < of_int f + 1"
  shows "round_half_even y = f + 1"
proof -
  from assms have "\<lfloor>y\<rfloor> = f" by (simp add: floor_eq_iff)
  with assms show ?thesis by (simp add: round_half_even_def Let_def)
qed

lemma round_half_even_tie:
  "round_half_even (of_int f + 1 / 2) = (if even f then f else f + 1)"
proof -
  have "\<lfloor>of_int f + 1 / 2 :: rat\<rfloor> = f" by (simp add: floor_eq_iff)
  then show ?thesis by (simp add: round_half_even_def Let_def)
qed

lemma fmt_1f_rounding:
  "fmt_1f (1236 / 100) = ''12.4''" "fmt_1f (1 / 4) = ''0.2''" "fmt_1f (3 / 4) = ''0.8''"
  "fmt_1f 75 = ''75.0''"
proof -
  have "round_half_even (1236 / 100 * 10) = 123 + 1"
    by (rule round_half_even_above) simp_all
  then have "round_half_even (1236 / 100 * 10) = int 124" by simp
  from fmt_1f_tenths [OF _ this] show "fmt_1f (1236 / 100) = ''12.4''"
    by (simp add: str_nat_scenario)
  have "round_half_even (1 / 4 * 10) = int 2"
    using round_half_even_tie [of 2] by simp
  from fmt_1f_tenths [OF _ this] show "fmt_1f (1 / 4) = ''0.2''"
    by (simp add: str_nat_scenario)
  have "round_half_even (3 / 4 * 10) = int 8"
    using round_half_even_tie [of 7] by simp
  from fmt_1f_tenths [OF _ this] show "fmt_1f (3 / 4) = ''0.8''"
    by (simp add: str_nat.simps digit_char_simps)
  have "round_half_even (75 * 10) = int 750"
    using round_half_even_int [of 750] by simp
  from fmt_1f_tenths [OF _ this] show "fmt_1f 75 = ''75.0''"
    by (simp add: str_nat.simps digit_char_simps)
qed

lemma memory_text_scenario:
  "memory_text \<lparr>total = 16000000000, used = 8000000000, percent = pc\<rparr>
     = ''Memory: '' @ fmt_1f pc @ ''% (7629 MB / 15258 MB)''"
proof -
  have "(8000000000::nat) div MB = 7629" "(16000000000::nat) div MB = 15258"
    by (simp_all add: MB_def)
  then show ?thesis
    by (simp add: memory_text_def str_nat_scenario)
qed

lemma single_snapshot_displayed:
  "displayed (check_updates iid (st\<lparr>update_queue := [snap]\<rparr>)) = snapshot_view (num_cores st) snap"
  using drain_last [of iid "[]" snap "st\<lparr>update_queue := [snap]\<rparr>"]
  by (simp add: check_updates_def)

text \<open>
  C9, as the code has it. Shown by a drain, a memory sample of 8,000,000,000 used and
  16,000,000,000 total bytes reads \<^verbatim>\<open>7629 MB\<close> and \<^verbatim>\<open>15258 MB\<close>, next to the percentage that
  is the sample's own percent field in the format \<^verbatim>\<open>:.1f\<close> (\<^verbatim>\<open>50.0\<close> when the field is 50);
  and the process 1234 \<^verbatim>\<open>worker\<close> with CPU 12.34, 52,428,800 resident bytes and status
  \<^verbatim>\<open>running\<close> is the row \<^verbatim>\<open>("1234", "worker", "12.3", "50.0", "running")\<close>, also when 12.34
  is the double nearest to it. The format rounds to the nearest tenth, ties to the even
  digit.
\<close>

theorem rendering_scenarios:
  "displayed (check_updates iid
      (st\<lparr>update_queue :=
           [(cpu, \<lparr>total = 16000000000, used = 8000000000, percent = pc\<rparr>,
             [\<lparr>p_pid = 1234, p_name = ''worker'', p_cpu_percent = 1234 / 100,
               p_memory_info = Some 52428800, p_status = Some ''running''\<rparr>])]\<rparr>))
     = (cpu_text (num_cores st) cpu, ''Memory: '' @ fmt_1f pc @ ''% (7629 MB / 15258 MB)'',
        ''Processes: 1'', [(''1234'', ''worker'', ''12.3'', ''50.0'', ''running'')])
   \<and> fmt_1f 50 = ''50.0''
   \<and> str_nat (8000000000 div (1024 * 1024)) = ''7629''
   \<and> str_nat (16000000000 div (1024 * 1024)) = ''15258''
   \<and> render_row \<lparr>p_pid = 1234, p_name = ''worker'',
                   p_cpu_percent = 3473401212609495 / 281474976710656,
                   p_memory_info = Some 52428800, p_status = Some ''running''\<rparr>
       = Inr (''1234'', ''worker'', ''12.3'', ''50.0'', ''running'')
   \<and> fmt_1f (1236 / 100) = ''12.4'' \<and> fmt_1f (1 / 4) = ''0.2'' \<and> fmt_1f (3 / 4) = ''0.8''"
proof -
  let ?snap = "(cpu, \<lparr>total = 16000000000, used = 8000000000, percent = pc\<rparr>,
             [\<lparr>p_pid = 1234, p_name = ''worker'', p_cpu_percent = 1234 / 100,
               p_memory_info = Some 52428800, p_status = Some ''running''\<rparr>])"
  have "displayed (check_updates iid (st\<lparr>update_queue := [?snap]\<rparr>))
          = snapshot_view (num_cores st) ?snap"
    by (rule single_snapshot_displayed)
  moreover have "snapshot_view (num_cores st) ?snap
     = (cpu_text (num_cores st) cpu, ''Memory: '' @ fmt_1f pc @ ''% (7629 MB / 15258 MB)'',
        ''Processes: 1'', [(''1234'', ''worker'', ''12.3'', ''50.0'', ''running'')])"
  proof -
    have row: "render_row \<lparr>p_pid = 1234, p_name = ''worker'', p_cpu_percent = 617 / 50,
                 p_memory_info = Some 52428800, p_status = Some ''running''\<rparr>
       = Inr (''1234'', ''worker'', ''12.3'', ''50.0'', ''running'')"
      using row_scenario(1) by simp
    show ?thesis
      unfolding snapshot_view_def rendered_rows_def
      by (simp add: memory_text_scenario row process_count_text_def str_nat_Suc)
  qed
  moreover have "str_nat (8000000000 div (1024 * 1024)) = ''7629''"
    "str_nat (16000000000 div (1024 * 1024)) = ''15258''"
    by (simp_all add: str_nat_scenario)
  ultimately show ?thesis
    using row_scenario(2) fmt_1f_scenario(3) fmt_1f_rounding by simp
qed

text \<open>
  C9 with a percentage of 50.0 for every sample of 8,000,000,000 used out of
  16,000,000,000 bytes fails on the sample whose percent field is 75 (a quarter of the
  memory is available): the label reads \<^verbatim>\<open>75.0%\<close>.
\<close>

theorem displayed_percent_counterexample:
  "displayed (check_updates sample_iid
      ((init_monitor (Some 4))
         \<lparr>update_queue := [(25, \<lparr>total = 16000000000, used = 8000000000, percent = 75\<rparr>, [])]\<rparr>))
     = (''CPU: 25.0% (Cores: 4)'', ''Memory: 75.0% (7629 MB / 15258 MB)'', ''Processes: 0'', [])"
proof -
  have "num_cores ((init_monitor (Some 4))
         \<lparr>update_queue := [(25, \<lparr>total = 16000000000, used = 8000000000, percent = 75\<rparr>, [])]\<rparr>)
          = Some 4"
    by (simp add: init_monitor_def)
  moreover have "cpu_text (Some 4) 25 = ''CPU: 25.0% (Cores: 4)''"
    by (simp add: cpu_text_def str_nat_scenario fmt_1f_scenario)
  ultimately show ?thesis
    by (simp add: single_snapshot_displayed snapshot_view_def memory_text_scenario
          fmt_1f_rounding process_count_text_def rendered_rows_def str_nat_scenario)
qed

lemma terminate_no_selection:
  "tree_selection st = [] \<Longrightarrow>
     terminate_process os_terminate confirm st =
       Inr (st\<lparr>dialogs := dialogs st
                  @ [ShowWarning ''No Selection'' ''Please select a process to terminate.'']\<rparr>)"
  by (simp add: terminate_process_def show_dialog_def)

lemma terminate_declined:
  assumes "tree_selection st = sel # rest" "map_of (tree st) sel = Some r"
  shows "terminate_process os_terminate False st =
           Inr (st\<lparr>dialogs := dialogs st @ [confirm_dialog (convert_stringval (tree_set r PID))]\<rparr>)"
  using assms by (simp add: terminate_process_def show_dialog_def confirm_dialog_def Let_def)

lemma terminate_confirmed:
  assumes "tree_selection st = sel # rest" "map_of (tree st) sel = Some r"
  shows "terminate_process os_terminate True st =
           Inr (st\<lparr>dialogs := dialogs st
                       @ [confirm_dialog (convert_stringval (tree_set r PID)),
                          outcome_dialog (convert_stringval (tree_set r PID))
                            (os_terminate (convert_stringval (tree_set r PID)))],
                    terminate_requests := terminate_requests st
                       @ [convert_stringval (tree_set r PID)]\<rparr>)"
  using assms
  by (simp add: terminate_process_def show_dialog_def confirm_dialog_def outcome_dialog_def
        Let_def split: option.splits)

lemma terminate_missing_item:
  assumes "tree_selection st = sel # rest" "map_of (tree st) sel = None"
  shows "terminate_process os_terminate confirm st = Inl (Exn TclError (''Item '' @ sel @ '' not found''))"
  using assms by (simp add: terminate_process_def)

lemma shown_monitor_tree:
  "tree shown_monitor = [(''I0'', (''1234'', ''worker'', ''100.0'', ''50.0'', ''running''))]"
  "tree_selection shown_monitor = [''I0'']"
  "dialogs shown_monitor = []" "terminate_requests shown_monitor = []"
proof -
  note mb = memory_mb_sample
  let ?p0 = "\<lparr>p_pid = 4, p_name = ''System'', p_cpu_percent = 200,
               p_memory_info = None, p_status = Some ''sleeping''\<rparr>"
  let ?p1 = "\<lparr>p_pid = 1234, p_name = ''worker'', p_cpu_percent = 100,
               p_memory_info = Some 52428800, p_status = Some ''running''\<rparr>"
  have r1: "render_row ?p0 = Inl (Exn AttributeError
               (CHR 0x27 # ''NoneType' object has no attribute 'rss'' @ [CHR 0x27]))"
    by (simp add: render_row_def)
  have r2: "render_row ?p1 = Inr (''1234'', ''worker'', ''100.0'', ''50.0'', ''running'')"
    unfolding render_row_def
    by (simp add: mb str_int_def str_nat_scenario fmt_1f_scenario del: of_nat_numeral)
  have "tree (populate sample_iid sample_processes st) = tree st @ [(sample_iid (tree_serial st), (''1234'', ''worker'', ''100.0'', ''50.0'', ''running''))]" for st
    unfolding sample_processes_def by (simp add: r1 r2 tree_insert_def)
  then show "tree shown_monitor = [(''I0'', (''1234'', ''worker'', ''100.0'', ''50.0'', ''running''))]"
    by (simp add: shown_monitor_def check_updates_def show_snapshot_def newer_snapshot_def
          init_monitor_def sample_iid_def str_nat_scenario)
  show "tree_selection shown_monitor = [''I0'']"
    by (simp add: shown_monitor_def)
  show "dialogs shown_monitor = []" "terminate_requests shown_monitor = []"
    by (simp_all add: shown_monitor_def check_updates_def show_snapshot_fields init_monitor_def)
qed

lemma convert_1234: "convert_stringval ''1234'' = PyInt 1234"
  by (simp add: convert_stringval_def py_int_def is_digit_def nat_of_digits_def digit_val_def)

lemma terminate_cases:
  obtains (none) "tree_selection st = []"
  | (missing) sel rest where "tree_selection st = sel # rest" "map_of (tree st) sel = None"
  | (found) sel rest r where "tree_selection st = sel # rest" "map_of (tree st) sel = Some r"
  by (cases "tree_selection st"; cases "map_of (tree st) (hd (tree_selection st))") auto

text \<open>
  C5. A confirmed terminate command on a selected row never raises, and always ends by
  opening a dialog that reports what the operating system answered. A failure is reported
  by one of three different error messages: \<^verbatim>\<open>Process no longer exists.\<close> when the process
  is gone, \<^verbatim>\<open>Access denied. Run as Administrator.\<close> when access is denied, and for any
  other exception \<^verbatim>\<open>Failed to terminate process: \<close> followed by the exception's text.
\<close>

theorem terminate_failure_surfaced:
  assumes "tree_selection st = sel # rest" and "map_of (tree st) sel = Some r"
    and "v = convert_stringval (tree_set r PID)"
  shows "(\<exists>st' d. terminate_process os_terminate True st = Inr st'
            \<and> dialogs st' = dialogs st @ [confirm_dialog v, d]
            \<and> (os_terminate v = None \<longrightarrow>
                  d = ShowInfo ''Success'' (''Process '' @ str_pyval v @ '' terminated.''))
            \<and> (\<forall>e. os_terminate v = Some e \<longrightarrow>
                  (kind e = NoSuchProcess \<longrightarrow> d = ShowError ''Error'' ''Process no longer exists.'')
                  \<and> (kind e = AccessDenied \<longrightarrow>
                        d = ShowError ''Error'' ''Access denied. Run as Administrator.'')
                  \<and> (kind e \<noteq> NoSuchProcess \<and> kind e \<noteq> AccessDenied \<longrightarrow>
                        d = ShowError ''Error'' (''Failed to terminate process: '' @ msg e))))
         \<and> ''Process no longer exists.'' \<noteq> ''Access denied. Run as Administrator.''
         \<and> ''Failed to terminate process: '' @ m \<noteq> ''Process no longer exists.''
         \<and> ''Failed to terminate process: '' @ m \<noteq> ''Access denied. Run as Administrator.''"
proof -
  let ?d = "outcome_dialog v (os_terminate v)"
  let ?st' = "st\<lparr>dialogs := dialogs st @ [confirm_dialog v, ?d],
                  terminate_requests := terminate_requests st @ [v]\<rparr>"
  have run: "terminate_process os_terminate True st = Inr ?st'"
    using terminate_confirmed [OF assms(1,2)] assms(3) by simp
  have ok: "os_terminate v = None \<longrightarrow>
              ?d = ShowInfo ''Success'' (''Process '' @ str_pyval v @ '' terminated.'')"
    by (simp add: outcome_dialog_def)
  have bad: "\<forall>e. os_terminate v = Some e \<longrightarrow>
                  (kind e = NoSuchProcess \<longrightarrow> ?d = ShowError ''Error'' ''Process no longer exists.'')
                  \<and> (kind e = AccessDenied \<longrightarrow>
                        ?d = ShowError ''Error'' ''Access denied. Run as Administrator.'')
                  \<and> (kind e \<noteq> NoSuchProcess \<and> kind e \<noteq> AccessDenied \<longrightarrow>
                        ?d = ShowError ''Error'' (''Failed to terminate process: '' @ msg e))"
    by (simp add: outcome_dialog_def)
  have "\<exists>st' d. terminate_process os_terminate True st = Inr st'
            \<and> dialogs st' = dialogs st @ [confirm_dialog v, d]
            \<and> (os_terminate v = None \<longrightarrow>
                  d = ShowInfo ''Success'' (''Process '' @ str_pyval v @ '' terminated.''))
            \<and> (\<forall>e. os_terminate v = Some e \<longrightarrow>
                  (kind e = NoSuchProcess \<longrightarrow> d = ShowError ''Error'' ''Process no longer exists.'')
                  \<and> (kind e = AccessDenied \<longrightarrow>
                        d = ShowError ''Error'' ''Access denied. Run as Administrator.'')
                  \<and> (kind e \<noteq> NoSuchProcess \<and> kind e \<noteq> AccessDenied \<longrightarrow>
                        d = ShowError ''Error'' (''Failed to terminate process: '' @ msg e)))"
    by (rule exI [of _ ?st'], rule exI [of _ ?d]) (use run ok bad in simp)
  then show ?thesis by simp
qed

lemma shown_monitor_selected:
  "tree_selection shown_monitor = ''I0'' # []"
  "map_of (tree shown_monitor) ''I0'' = Some (''1234'', ''worker'', ''100.0'', ''50.0'', ''running'')"
  "PyInt 1234 = convert_stringval (tree_set (''1234'', ''worker'', ''100.0'', ''50.0'', ''running'') PID)"
  by (simp_all add: shown_monitor_tree convert_1234)

lemma confirm_1234:
  "confirm_dialog (PyInt 1234) =
     AskYesNo ''Confirm Termination'' ''Are you sure you want to terminate PID 1234?''"
  by (simp add: confirm_dialog_def str_int_def str_nat_scenario)

theorem terminate_failure_surfaced_witness:
  "map_sum id dialogs
     (terminate_process (failing_os (Exn NoSuchProcess ''process no longer exists (pid=1234)''))
        True shown_monitor)
     = Inr [AskYesNo ''Confirm Termination'' ''Are you sure you want to terminate PID 1234?'',
            ShowError ''Error'' ''Process no longer exists.'']
   \<and> map_sum id dialogs
       (terminate_process (failing_os (Exn AccessDenied ''(pid=1234)'')) True shown_monitor)
     = Inr [AskYesNo ''Confirm Termination'' ''Are you sure you want to terminate PID 1234?'',
            ShowError ''Error'' ''Access denied. Run as Administrator.'']
   \<and> map_sum id dialogs
       (terminate_process (failing_os (Exn OtherException ''input/output error'')) True shown_monitor)
     = Inr [AskYesNo ''Confirm Termination'' ''Are you sure you want to terminate PID 1234?'',
            ShowError ''Error'' ''Failed to terminate process: input/output error'']"
proof -
  note th = terminate_failure_surfaced [OF shown_monitor_selected]
  have a: "map_sum id dialogs
     (terminate_process (failing_os (Exn NoSuchProcess ''process no longer exists (pid=1234)''))
        True shown_monitor)
     = Inr [AskYesNo ''Confirm Termination'' ''Are you sure you want to terminate PID 1234?'',
            ShowError ''Error'' ''Process no longer exists.'']"
    using th [of "failing_os (Exn NoSuchProcess ''process no longer exists (pid=1234)'')"]
    by (auto simp: failing_os_def shown_monitor_tree confirm_1234)
  have b: "map_sum id dialogs
       (terminate_process (failing_os (Exn AccessDenied ''(pid=1234)'')) True shown_monitor)
     = Inr [AskYesNo ''Confirm Termination'' ''Are you sure you want to terminate PID 1234?'',
            ShowError ''Error'' ''Access denied. Run as Administrator.'']"
    using th [of "failing_os (Exn AccessDenied ''(pid=1234)'')"]
    by (auto simp: failing_os_def shown_monitor_tree confirm_1234)
  have c: "map_sum id dialogs
       (terminate_process (failing_os (Exn OtherException ''input/output error'')) True shown_monitor)
     = Inr [AskYesNo ''Confirm Termination'' ''Are you sure you want to terminate PID 1234?'',
            ShowError ''Error'' ''Failed to terminate process: input/output error'']"
    using th [of "failing_os (Exn OtherException ''input/output error'')"]
    by (auto simp: failing_os_def shown_monitor_tree confirm_1234)
  from a b c show ?thesis by blast
qed

text \<open>
  C10. With no row selected the terminate command only opens the warning
  \<^verbatim>\<open>No Selection\<close> and returns; and whenever no row is selected or the operator declines
  the confirmation, nothing is asked of the operating system and the labels, the rows and
  the selection stay as they were. A request reaches the operating system only when a
  row is selected and the confirmation is affirmative; it is then a single request.
\<close>

theorem terminate_gated:
  "(tree_selection st = [] \<longrightarrow>
      terminate_process os_terminate confirm st =
        Inr (st\<lparr>dialogs := dialogs st
                   @ [ShowWarning ''No Selection'' ''Please select a process to terminate.'']\<rparr>))
   \<and> (terminate_process os_terminate confirm st = Inr st'
        \<and> (tree_selection st = [] \<or> confirm = False) \<longrightarrow>
          terminate_requests st' = terminate_requests st \<and> displayed st' = displayed st
          \<and> tree st' = tree st \<and> tree_selection st' = tree_selection st)
   \<and> (terminate_process os_terminate confirm st = Inr st'
        \<and> terminate_requests st' \<noteq> terminate_requests st \<longrightarrow>
          tree_selection st \<noteq> [] \<and> confirm
          \<and> (\<exists>v. terminate_requests st' = terminate_requests st @ [v]))
   \<and> (terminate_process os_terminate confirm st = Inl x \<longrightarrow>
          tree_selection st \<noteq> [] \<and> kind x = TclError)"
proof (cases st rule: terminate_cases)
  case none
  then show ?thesis
    by (auto simp: terminate_no_selection displayed_def)
next
  case (missing sel rest)
  then show ?thesis
    by (auto simp: terminate_missing_item)
next
  case (found sel rest r)
  show ?thesis
  proof (cases confirm)
    case True
    with found show ?thesis
      by (auto simp: terminate_confirmed displayed_def)
  next
    case False
    with found show ?thesis
      by (auto simp: terminate_declined displayed_def)
  qed
qed

theorem terminate_gated_witness:
  "terminate_process (failing_os (Exn AccessDenied ''(pid=1234)'')) True
       (shown_monitor\<lparr>tree_selection := []\<rparr>)
     = Inr (shown_monitor\<lparr>tree_selection := [],
              dialogs := [ShowWarning ''No Selection'' ''Please select a process to terminate.'']\<rparr>)
   \<and> terminate_process (failing_os (Exn AccessDenied ''(pid=1234)'')) False shown_monitor
     = Inr (shown_monitor\<lparr>dialogs :=
              [AskYesNo ''Confirm Termination'' ''Are you sure you want to terminate PID 1234?'']\<rparr>)
   \<and> terminate_requests (shown_monitor\<lparr>dialogs :=
              [AskYesNo ''Confirm Termination'' ''Are you sure you want to terminate PID 1234?'']\<rparr>)
     = terminate_requests shown_monitor
   \<and> displayed (shown_monitor\<lparr>dialogs :=
              [AskYesNo ''Confirm Termination'' ''Are you sure you want to terminate PID 1234?'']\<rparr>)
     = displayed shown_monitor"
proof -
  let ?os = "failing_os (Exn AccessDenied ''(pid=1234)'')"
  let ?asked = "shown_monitor\<lparr>dialogs :=
              [AskYesNo ''Confirm Termination'' ''Are you sure you want to terminate PID 1234?'']\<rparr>"
  have a: "terminate_process ?os True (shown_monitor\<lparr>tree_selection := []\<rparr>)
     = Inr (shown_monitor\<lparr>tree_selection := [],
              dialogs := [ShowWarning ''No Selection'' ''Please select a process to terminate.'']\<rparr>)"
    using terminate_gated [of "shown_monitor\<lparr>tree_selection := []\<rparr>" ?os True]
    by (simp add: shown_monitor_tree)
  have b: "terminate_process ?os False shown_monitor = Inr ?asked"
    using terminate_declined [OF shown_monitor_selected(1,2), of ?os]
    by (simp add: convert_1234 confirm_1234 shown_monitor_tree)
  from terminate_gated [of shown_monitor ?os False ?asked] b
  have "terminate_requests ?asked = terminate_requests shown_monitor
        \<and> displayed ?asked = displayed shown_monitor"
    by blast
  with a b show ?thesis by blast
qed

lemma pick_single:
  "distinct (map fst t) \<Longrightarrow> it \<in> set t \<Longrightarrow> filter (\<lambda>item. fst item = fst it) t = [it]"
proof (induction t)
  case Nil
  then show ?case by simp
next
  case (Cons a t)
  then show ?case
    by (cases "a = it") (auto simp: filter_empty_conv image_iff)
qed

lemma tree_move_front:
  assumes "length pre = n" "k \<notin> fst ` set pre" "filter (\<lambda>item. fst item = k) rest = [it]"
  shows "tree_move k n (pre @ rest) = (pre @ [it]) @ filter (\<lambda>item. fst item \<noteq> k) rest"
proof -
  from assms(2) have a: "filter (\<lambda>item. fst item = k) pre = []"
    and b: "filter (\<lambda>item. fst item \<noteq> k) pre = pre"
    by (auto simp: filter_empty_conv filter_id_conv)
  show ?thesis
    by (simp add: tree_move_def a b assms(1,3))
qed

lemma fold_moves:
  assumes "length pre = n" "fst ` set pre \<inter> snd ` set items = {}"
    and "distinct (map snd items)" "distinct (map fst rest)"
    and "snd ` set items \<subseteq> fst ` set rest"
  shows "fold (\<lambda>(index, (val, k)). tree_move k index) (enumerate n items) (pre @ rest)
          = pre @ concat (map (\<lambda>x. filter (\<lambda>item. fst item = snd x) rest) items)
              @ filter (\<lambda>item. fst item \<notin> snd ` set items) rest"
  using assms
proof (induction items arbitrary: pre rest n)
  case Nil
  then show ?case by simp
next
  case (Cons x items)
  obtain v k where x: "x = (v, k)" by (cases x)
  from Cons.prems(5) x have "k \<in> fst ` set rest" by simp
  then obtain it where it: "it \<in> set rest" "fst it = k" by auto
  with Cons.prems(4) have one: "filter (\<lambda>item. fst item = k) rest = [it]"
    using pick_single [of rest it] by simp
  from Cons.prems(2) x have kpre: "k \<notin> fst ` set pre" by auto
  let ?rest = "filter (\<lambda>item. fst item \<noteq> k) rest"
  have step: "tree_move k n (pre @ rest) = (pre @ [it]) @ ?rest"
    by (rule tree_move_front [OF Cons.prems(1) kpre one])
  from Cons.prems(3) x have knot: "k \<notin> snd ` set items" and dist: "distinct (map snd items)"
    by (auto simp: image_iff)
  have p1: "length (pre @ [it]) = Suc n" using Cons.prems(1) by simp
  have p2: "fst ` set (pre @ [it]) \<inter> snd ` set items = {}"
    using Cons.prems(2) knot it(2) by auto
  have p4: "distinct (map fst ?rest)"
    using Cons.prems(4) by (simp add: distinct_map_filter)
  have p5: "snd ` set items \<subseteq> fst ` set ?rest"
  proof
    fix k' assume k': "k' \<in> snd ` set items"
    with Cons.prems(5) have "k' \<in> fst ` set rest" by auto
    moreover from k' knot have "k' \<noteq> k" by auto
    ultimately show "k' \<in> fst ` set ?rest" by auto
  qed
  have same: "filter (\<lambda>item. fst item = snd y) ?rest = filter (\<lambda>item. fst item = snd y) rest"
    if "y \<in> set items" for y
  proof -
    from that knot have "snd y \<noteq> k" by auto
    then show ?thesis by (auto intro: filter_cong)
  qed
  have tail: "filter (\<lambda>item. fst item \<notin> snd ` set items) ?rest
                = filter (\<lambda>item. fst item \<notin> snd ` set (x # items)) rest"
    using x by (auto intro: filter_cong)
  have "fold (\<lambda>(index, (val, k)). tree_move k index) (enumerate n (x # items)) (pre @ rest)
          = fold (\<lambda>(index, (val, k)). tree_move k index) (enumerate (Suc n) items)
              ((pre @ [it]) @ ?rest)"
    using step x by simp
  also have "\<dots> = (pre @ [it]) @ concat (map (\<lambda>x. filter (\<lambda>item. fst item = snd x) ?rest) items)
              @ filter (\<lambda>item. fst item \<notin> snd ` set items) ?rest"
    by (rule Cons.IH [OF p1 p2 dist p4 p5])
  also have "\<dots> = pre @ concat (map (\<lambda>x. filter (\<lambda>item. fst item = snd x) rest) (x # items))
              @ filter (\<lambda>item. fst item \<notin> snd ` set (x # items)) rest"
    using same one x tail by (simp cong: map_cong)
  finally show ?case .
qed


lemma picks_keys:
  assumes "distinct (map fst t)" "snd ` set xs \<subseteq> fst ` set t"
  shows "map fst (concat (map (\<lambda>x. filter (\<lambda>item. fst item = snd x) t) xs)) = map snd xs"
  using assms(2)
proof (induction xs)
  case Nil
  show ?case by simp
next
  case (Cons x xs)
  then obtain it where "it \<in> set t" "fst it = snd x" by auto
  with pick_single [OF assms(1), of it] Cons show ?case by simp
qed

lemma picks_cells:
  assumes "distinct (map fst t)" "set xs \<subseteq> (\<lambda>(k, r). (tree_set r col, k)) ` set t"
  shows "map (\<lambda>(k, r). (tree_set r col, k))
           (concat (map (\<lambda>x. filter (\<lambda>item. fst item = snd x) t) xs)) = xs"
  using assms(2)
proof (induction xs)
  case Nil
  show ?case by simp
next
  case (Cons x xs)
  then obtain it where it: "it \<in> set t" "x = (\<lambda>(k, r). (tree_set r col, k)) it" by auto
  from it(2) have "fst it = snd x" by (cases it) simp
  with pick_single [OF assms(1) it(1)] it(2) Cons show ?case by simp
qed

lemma move_all_reorders:
  assumes "distinct (map fst t)"
    and "mset sorted_items = mset (map (\<lambda>(k, r). (tree_set r col, k)) t)"
  shows "map (\<lambda>(k, r). (tree_set r col, k)) (move_all sorted_items t) = sorted_items"
    and "mset (move_all sorted_items t) = mset t"
proof -
  let ?f = "\<lambda>(k, r). (tree_set r col, k)"
  let ?picked = "concat (map (\<lambda>x. filter (\<lambda>item. fst item = snd x) t) sorted_items)"
  have keys: "map snd (map ?f t) = map fst t" by (induction t) auto
  from assms(2) have "set sorted_items = set (map ?f t)"
    by (rule mset_eq_setD)
  then have set_eq: "set sorted_items = ?f ` set t" by simp
  have "mset (map snd sorted_items) = mset (map snd (map ?f t))"
    using arg_cong [OF assms(2), of "image_mset snd"] by (simp only: mset_map)
  then have mkeys: "mset (map snd sorted_items) = mset (map fst t)"
    by (simp only: keys)
  from mset_eq_imp_distinct_iff [OF mkeys] assms(1)
  have dist: "distinct (map snd sorted_items)" by simp
  from mset_eq_setD [OF mkeys]
  have skeys: "snd ` set sorted_items = fst ` set t" by simp
  have "fold (\<lambda>(index, (val, k)). tree_move k index) (enumerate 0 sorted_items) ([] @ t)
          = [] @ ?picked @ filter (\<lambda>item. fst item \<notin> snd ` set sorted_items) t"
    by (rule fold_moves) (use dist assms(1) skeys in simp_all)
  moreover have "filter (\<lambda>item. fst item \<notin> snd ` set sorted_items) t = []"
    using skeys by (auto simp: filter_empty_conv)
  ultimately have moved: "move_all sorted_items t = ?picked"
    by (simp add: move_all_def)
  show "map ?f (move_all sorted_items t) = sorted_items"
    unfolding moved by (rule picks_cells [OF assms(1)]) (simp add: set_eq)
  have k2: "map fst ?picked = map snd sorted_items"
    by (rule picks_keys [OF assms(1)]) (simp add: skeys)
  with dist have d2: "distinct (map fst ?picked)" by simp
  have "set ?picked = set t"
  proof
    show "set ?picked \<subseteq> set t" by auto
    show "set t \<subseteq> set ?picked"
    proof
      fix it assume it: "it \<in> set t"
      then have "?f it \<in> set sorted_items" by (simp add: set_eq)
      moreover have "snd (?f it) = fst it" by (cases it) simp
      ultimately show "it \<in> set ?picked" using it by force
    qed
  qed
  moreover from d2 have "distinct ?picked" by (simp only: distinct_map)
  moreover from assms(1) have "distinct t" by (simp only: distinct_map)
  ultimately show "mset (move_all sorted_items t) = mset t"
    unfolding moved by (simp only: set_eq_iff_mset_eq_distinct)
qed

lemma decorate_Inr:
  "decorate items = Inr ds \<Longrightarrow>
     map snd ds = items \<and> (\<forall>d \<in> set ds. float_key (fst (snd d)) = Inr (fst d))"
  by (induction items arbitrary: ds) (auto split: sum.splits)

lemma decorate_total:
  "\<forall>x \<in> set items. has_number (fst x) \<Longrightarrow> \<exists>ds. decorate items = Inr ds"
  by (induction items) (auto simp: has_number_def split: sum.splits)

lemma less_eq_pair_fst: "(a::string \<times> string) \<le> b \<Longrightarrow> fst a \<le> fst b"
  by (auto simp: less_eq_prod_def)

lemma sort_items_mset:
  assumes "sort_items col reverse items = Inr sorted_items"
  shows "mset sorted_items = mset items"
proof (cases "col = CPU \<or> col = Memory")
  case True
  with assms obtain ds where ds: "decorate items = Inr ds"
    and s: "sorted_items = map snd (py_sort_key fst reverse ds)"
    by (auto simp: sort_items_def split: sum.splits)
  have "mset sorted_items = image_mset snd (mset (py_sort_key fst reverse ds))"
    by (simp add: s)
  also have "\<dots> = mset (map snd ds)" by (simp add: mset_py_sort_key)
  finally show ?thesis using decorate_Inr [OF ds] by simp
next
  case False
  with assms show ?thesis by (auto simp: sort_items_def mset_py_sort_key)
qed

lemma sort_items_order:
  assumes "sort_items col reverse items = Inr sorted_items"
  shows "sorted_wrt (\<lambda>a b. if reverse then cell_le col (fst b) (fst a)
                            else cell_le col (fst a) (fst b)) sorted_items"
proof (cases "col = CPU \<or> col = Memory")
  case True
  with assms obtain ds where ds: "decorate items = Inr ds"
    and s: "sorted_items = map snd (py_sort_key fst reverse ds)"
    by (auto simp: sort_items_def split: sum.splits)
  let ?sd = "py_sort_key fst reverse ds"
  from decorate_Inr [OF ds]
  have keys: "\<forall>d \<in> set ?sd. float_key (fst (snd d)) = Inr (fst d)"
    by (simp add: set_py_sort_key)
  have "sorted_wrt (\<lambda>a b. if reverse then fst b \<le> fst a else fst a \<le> fst b) ?sd"
    using py_sort_key_descending [of fst ds] py_sort_key_ascending [of fst ds]
    by (cases reverse) simp_all
  then have "sorted_wrt (\<lambda>a b. if reverse then cell_le col (fst (snd b)) (fst (snd a))
                            else cell_le col (fst (snd a)) (fst (snd b))) ?sd"
  proof (rule sorted_wrt_mono_rel [rotated])
    fix a b assume "a \<in> set ?sd" "b \<in> set ?sd"
      and "if reverse then fst b \<le> fst a else fst a \<le> fst b"
    with keys True
    show "if reverse then cell_le col (fst (snd b)) (fst (snd a))
          else cell_le col (fst (snd a)) (fst (snd b))"
      by (auto simp: cell_le_def numeric_le_def)
  qed
  then show ?thesis by (simp add: s sorted_wrt_map)
next
  case False
  with assms have s: "sorted_items = py_sort_key (\<lambda>x. x) reverse items"
    by (auto simp: sort_items_def)
  have "sorted_wrt (\<lambda>a b. if reverse then b \<le> a else a \<le> b) sorted_items"
    using py_sort_key_descending [of "\<lambda>x. x" items] py_sort_key_ascending [of "\<lambda>x. x" items]
    by (cases reverse) (simp_all add: s)
  then show ?thesis
  proof (rule sorted_wrt_mono_rel [rotated])
    fix a b :: "string \<times> string"
    assume "if reverse then b \<le> a else a \<le> b"
    with False show "if reverse then cell_le col (fst b) (fst a) else cell_le col (fst a) (fst b)"
      by (auto simp: cell_le_def dest: less_eq_pair_fst)
  qed
qed

lemma sort_items_total:
  assumes "col = CPU \<or> col = Memory \<longrightarrow> (\<forall>x \<in> set items. has_number (fst x))"
  shows "\<exists>sorted_items. sort_items col reverse items = Inr sorted_items"
proof (cases "col = CPU \<or> col = Memory")
  case True
  with assms decorate_total [of items] obtain ds where "decorate items = Inr ds" by blast
  with True show ?thesis by (simp add: sort_items_def)
next
  case False
  then show ?thesis by (simp add: sort_items_def)
qed

lemma table_ok_mset:
  assumes "table_ok t" "mset t' = mset t"
  shows "table_ok t'"
proof -
  from assms(2) have "mset (map fst t') = mset (map fst t)" by simp
  from mset_eq_imp_distinct_iff [OF this] assms(1) have "distinct (map fst t')"
    by (simp add: table_ok_def)
  moreover from assms(2) have "set t' = set t" by (rule mset_eq_setD)
  ultimately show ?thesis using assms(1) by (simp add: table_ok_def list_all_iff)
qed

lemma sort_column_sorts:
  assumes "table_ok (tree st)"
  shows "\<exists>st1. sort_column st col reverse = Inr st1
           \<and> mset (tree st1) = mset (tree st) \<and> in_order col reverse (tree st1)
           \<and> table_ok (tree st1)
           \<and> heading_command st1 = (heading_command st)(col := Some (\<not> reverse))
           \<and> st1\<lparr>tree := tree st, heading_command := heading_command st\<rparr> = st"
proof -
  let ?f = "\<lambda>(k, r). (tree_set r col, k)"
  let ?items = "map ?f (tree st)"
  from assms have dist: "distinct (map fst (tree st))"
    and nums: "\<forall>item \<in> set (tree st). has_number (tree_set (snd item) CPU)
                                          \<and> has_number (tree_set (snd item) Memory)"
    by (simp_all add: table_ok_def list_all_iff)
  have "col = CPU \<or> col = Memory \<longrightarrow> (\<forall>x \<in> set ?items. has_number (fst x))"
    using nums by auto
  from sort_items_total [OF this] obtain sorted_items where
    s: "sort_items col reverse ?items = Inr sorted_items" by blast
  let ?st1 = "st\<lparr>tree := move_all sorted_items (tree st),
                  heading_command := (heading_command st)(col := Some (\<not> reverse))\<rparr>"
  have run: "sort_column st col reverse = Inr ?st1"
    by (simp add: sort_column_def s)
  from sort_items_mset [OF s] have perm: "mset sorted_items = mset ?items" .
  note moved = move_all_reorders [OF dist perm]
  have "sorted_wrt (\<lambda>a b. if reverse then cell_le col (fst b) (fst a)
                            else cell_le col (fst a) (fst b))
          (map ?f (move_all sorted_items (tree st)))"
    using sort_items_order [OF s] by (simp only: moved(1))
  then have ord: "in_order col reverse (move_all sorted_items (tree st))"
    by (cases reverse) (simp_all add: in_order_def sorted_wrt_map case_prod_unfold)
  have ok: "table_ok (move_all sorted_items (tree st))"
    by (rule table_ok_mset [OF assms moved(2)])
  show ?thesis
    by (rule exI [of _ ?st1]) (simp add: run moved(2) ord ok)
qed

text \<open>
  C3. On a table whose items have distinct identifiers and numbers in their numeric
  cells, the sort command succeeds for every column and direction: the rows it leaves
  are a permutation of the rows it found, in order by that column (numeric comparison for
  \<^verbatim>\<open>CPU%\<close> and \<^verbatim>\<open>Memory\<close>, lexicographic for the others), and nothing but the rows' order
  and the column's heading command changes. The heading then holds the command for the
  opposite direction: invoking it leaves the same rows in order the other way round and
  restores the first direction for the next invocation.
\<close>

theorem sort_column_toggles:
  assumes "table_ok (tree st)"
  shows "\<exists>st1 st2.
           sort_column st col reverse = Inr st1
           \<and> mset (tree st1) = mset (tree st) \<and> in_order col reverse (tree st1)
           \<and> st1\<lparr>tree := tree st, heading_command := heading_command st\<rparr> = st
           \<and> heading_command st1 col = Some (\<not> reverse)
           \<and> click_heading st1 col = sort_column st1 col (\<not> reverse)
           \<and> click_heading st1 col = Inr st2
           \<and> mset (tree st2) = mset (tree st) \<and> in_order col (\<not> reverse) (tree st2)
           \<and> heading_command st2 col = Some reverse"
proof -
  from sort_column_sorts [OF assms, of col reverse] obtain st1 where
    r1: "sort_column st col reverse = Inr st1"
    and p1: "mset (tree st1) = mset (tree st)" and o1: "in_order col reverse (tree st1)"
    and ok1: "table_ok (tree st1)"
    and h1: "heading_command st1 = (heading_command st)(col := Some (\<not> reverse))"
    and same1: "st1\<lparr>tree := tree st, heading_command := heading_command st\<rparr> = st"
    by blast
  from sort_column_sorts [OF ok1, of col "\<not> reverse"] obtain st2 where
    r2: "sort_column st1 col (\<not> reverse) = Inr st2"
    and p2: "mset (tree st2) = mset (tree st1)" and o2: "in_order col (\<not> reverse) (tree st2)"
    and h2: "heading_command st2 = (heading_command st1)(col := Some (\<not> \<not> reverse))"
    by blast
  from h1 have c: "click_heading st1 col = sort_column st1 col (\<not> reverse)"
    by (simp add: click_heading_def)
  show ?thesis
    by (rule exI [of _ st1], rule exI [of _ st2])
       (simp add: r1 p1 o1 same1 h1 c r2 p2 o2 h2)
qed

lemma sample_keys:
  "float_key ''100.0'' = Inr 100" "float_key ''200.0'' = Inr 200"
  "float_key ''50.0'' = Inr 50" "float_key ''0.1'' = Inr (1 / 10)" "float_key ''7.5'' = Inr (15 / 2)"
  by code_simp+

lemma sample_table_ok: "table_ok sample_table"
  by (simp add: table_ok_def sample_table_def has_number_def sample_keys)

lemma sample_sort_cpu:
  "sort_items CPU True (map (\<lambda>(k, r). (tree_set r CPU, k)) sample_table)
     = Inr [(''200.0'', ''I1''), (''100.0'', ''I0''), (''100.0'', ''I2'')]"
  by (simp add: sort_items_def sample_table_def sample_keys py_sort_key_def)

lemma sample_move_cpu:
  "move_all [(''200.0'', ''I1''), (''100.0'', ''I0''), (''100.0'', ''I2'')] sample_table
     = [sample_table ! 1, sample_table ! 0, sample_table ! 2]"
  by (simp add: move_all_def sample_table_def tree_move_def)

lemma sample_click_cpu:
  "click_heading table_monitor CPU = sort_column table_monitor CPU True"
  "sort_column table_monitor CPU True = Inr cpu_down"
proof -
  show "click_heading table_monitor CPU = sort_column table_monitor CPU True"
    by (simp add: click_heading_def table_monitor_def init_monitor_def)
  have "tree table_monitor = sample_table" by (simp add: table_monitor_def)
  then show "sort_column table_monitor CPU True = Inr cpu_down"
    by (simp add: sort_column_def sample_sort_cpu sample_move_cpu cpu_down_def)
       (simp add: sample_table_def)
qed

lemma sample_click_cpu_again:
  "sort_column cpu_down CPU False = Inr cpu_up"
proof -
  let ?t = "[(''I1'', (''4'', ''System'', ''200.0'', ''0.1'', ''sleeping'')),
             (''I0'', (''1234'', ''worker'', ''100.0'', ''50.0'', ''running'')),
             (''I2'', (''77'', ''agent'', ''100.0'', ''7.5'', ''running''))]"
  have t: "tree cpu_down = ?t" by (simp add: cpu_down_def)
  have s: "sort_items CPU False [(''200.0'', ''I1''), (''100.0'', ''I0''), (''100.0'', ''I2'')]
             = Inr [(''100.0'', ''I0''), (''100.0'', ''I2''), (''200.0'', ''I1'')]"
    by (simp add: sort_items_def sample_keys py_sort_key_def)
  have m: "move_all [(''100.0'', ''I0''), (''100.0'', ''I2''), (''200.0'', ''I1'')] ?t
             = [(''I0'', (''1234'', ''worker'', ''100.0'', ''50.0'', ''running'')),
                (''I2'', (''77'', ''agent'', ''100.0'', ''7.5'', ''running'')),
                (''I1'', (''4'', ''System'', ''200.0'', ''0.1'', ''sleeping''))]"
    by (simp add: move_all_def tree_move_def)
  have h: "(heading_command cpu_down)(CPU := Some True)
             = (heading_command table_monitor)(CPU := Some True)"
    by (simp add: cpu_down_def)
  have "sort_column cpu_down CPU False
          = Inr (cpu_down\<lparr>tree := move_all [(''100.0'', ''I0''), (''100.0'', ''I2''),
                                             (''200.0'', ''I1'')] ?t,
                          heading_command := (heading_command cpu_down)(CPU := Some True)\<rparr>)"
    by (simp add: sort_column_def t s)
  then show ?thesis
    by (simp only: m h) (simp add: cpu_down_def cpu_up_def)
qed

theorem sort_column_toggles_witness:
  "table_ok (tree table_monitor)
   \<and> sort_column table_monitor CPU True = Inr cpu_down
   \<and> map fst (tree cpu_down) = [''I1'', ''I0'', ''I2'']
   \<and> mset (tree cpu_down) = mset (tree table_monitor)
   \<and> in_order CPU True (tree cpu_down)
   \<and> click_heading cpu_down CPU = Inr cpu_up
   \<and> map fst (tree cpu_up) = [''I0'', ''I2'', ''I1'']
   \<and> mset (tree cpu_up) = mset (tree table_monitor)
   \<and> in_order CPU False (tree cpu_up)"
proof -
  have ok: "table_ok (tree table_monitor)"
    by (simp add: table_monitor_def sample_table_ok)
  from sort_column_toggles [OF ok, of CPU True] obtain st1 st2 where
    "sort_column table_monitor CPU True = Inr st1"
    and p1: "mset (tree st1) = mset (tree table_monitor)" and o1: "in_order CPU True (tree st1)"
    and "click_heading st1 CPU = sort_column st1 CPU (\<not> True)"
    and "click_heading st1 CPU = Inr st2"
    and p2: "mset (tree st2) = mset (tree table_monitor)"
    and o2: "in_order CPU (\<not> True) (tree st2)"
    by blast
  with sample_click_cpu(2) sample_click_cpu_again
  have st1: "st1 = cpu_down" and st2: "st2 = cpu_up"
    and c: "click_heading cpu_down CPU = Inr cpu_up" by simp_all
  have "map fst (tree cpu_down) = [''I1'', ''I0'', ''I2'']"
    "map fst (tree cpu_up) = [''I0'', ''I2'', ''I1'']"
    by (simp_all add: cpu_down_def cpu_up_def)
  with ok sample_click_cpu(2) c p1 o1 p2 o2 show ?thesis
    unfolding st1 st2 by simp
qed

subsection \<open>The table the presenter keeps\<close>

lemma of_char_digit_char: "d < 10 \<Longrightarrow> of_char (digit_char d) = 48 + d"
  by (simp add: digit_char_def)

lemma is_digit_iff: "is_digit c \<longleftrightarrow> 48 \<le> (of_char c :: nat) \<and> (of_char c :: nat) \<le> 57"
  by (simp add: is_digit_def less_eq_char_def)

lemma is_digit_digit_char: "d < 10 \<Longrightarrow> is_digit (digit_char d)"
  by (simp add: is_digit_iff of_char_digit_char)

lemma digit_val_digit_char: "d < 10 \<Longrightarrow> digit_val (digit_char d) = d"
  by (simp add: digit_val_def of_char_digit_char)

lemma str_nat_digits: "list_all is_digit (str_nat n)"
proof (induction n rule: str_nat.induct)
  case (1 n)
  show ?case
  proof (cases "n < 10")
    case True
    then show ?thesis by (subst str_nat.simps) (simp add: is_digit_digit_char)
  next
    case False
    with 1 show ?thesis by (subst str_nat.simps) (simp add: is_digit_digit_char)
  qed
qed

lemma str_nat_nonempty: "str_nat n \<noteq> []"
  by (subst str_nat.simps) simp

lemma nat_of_digits_snoc: "nat_of_digits (ds @ [c]) = 10 * nat_of_digits ds + digit_val c"
  by (simp add: nat_of_digits_def)

lemma nat_of_digits_str_nat: "nat_of_digits (str_nat n) = n"
proof (induction n rule: str_nat.induct)
  case (1 n)
  show ?case
  proof (cases "n < 10")
    case True
    then show ?thesis
      by (subst str_nat.simps) (simp add: nat_of_digits_def digit_val_digit_char)
  next
    case False
    with 1 show ?thesis
      by (subst str_nat.simps) (simp add: nat_of_digits_snoc digit_val_digit_char)
  qed
qed

lemma not_digit: "\<not> is_digit CHR ''.''" "\<not> is_digit CHR ''-''"
  by (simp_all add: is_digit_iff)

lemma py_int_str_int: "py_int (str_int i) = Some i"
proof (cases "i < 0")
  case True
  then show ?thesis
    by (simp add: py_int_def str_int_def str_nat_digits str_nat_nonempty nat_of_digits_str_nat)
next
  case False
  have "hd (str_nat (nat i)) \<noteq> CHR ''-''"
    using str_nat_digits [of "nat i"] str_nat_nonempty [of "nat i"] not_digit(2)
    by (cases "str_nat (nat i)") auto
  with False show ?thesis
    by (simp add: py_int_def str_int_def str_nat_digits str_nat_nonempty nat_of_digits_str_nat)
qed

lemma convert_str_int: "convert_stringval (str_int i) = PyInt i"
  by (simp add: convert_stringval_def py_int_str_int)

lemma split_at_point:
  assumes "list_all is_digit ds"
  shows "takeWhile (\<lambda>c. c \<noteq> CHR ''.'') (ds @ CHR ''.'' # rest) = ds"
    and "dropWhile (\<lambda>c. c \<noteq> CHR ''.'') (ds @ CHR ''.'' # rest) = CHR ''.'' # rest"
proof -
  from assms not_digit(1) have "\<forall>c \<in> set ds. c \<noteq> CHR ''.''"
    by (auto simp: list_all_iff)
  then show "takeWhile (\<lambda>c. c \<noteq> CHR ''.'') (ds @ CHR ''.'' # rest) = ds"
    and "dropWhile (\<lambda>c. c \<noteq> CHR ''.'') (ds @ CHR ''.'' # rest) = CHR ''.'' # rest"
    by (simp_all add: takeWhile_append2 dropWhile_append2)
qed

lemma unsigned_float_decimal:
  "unsigned_float (str_nat a @ CHR ''.'' # str_nat b)
     = Some (of_nat a + of_nat b / 10 ^ length (str_nat b))"
  using split_at_point [OF str_nat_digits, of a "str_nat b"]
  by (simp add: unsigned_float_def str_nat_digits str_nat_nonempty nat_of_digits_str_nat)

lemma py_float_fmt_1f:
  "\<exists>q. py_float (fmt_1f x) = Some q"
proof -
  let ?t = "nat (round_half_even (\<bar>x\<bar> * 10))"
  let ?body = "str_nat (?t div 10) @ ''.'' @ str_nat (?t mod 10)"
  show ?thesis
  proof (cases "x < 0")
    case True
    then have "fmt_1f x = CHR ''-'' # ?body" by (simp add: fmt_1f_def Let_def)
    then show ?thesis by (simp add: py_float_def unsigned_float_decimal)
  next
    case False
    have "hd ?body \<noteq> CHR ''-''"
      using str_nat_digits [of "?t div 10"] str_nat_nonempty [of "?t div 10"] not_digit(2)
      by (cases "str_nat (?t div 10)") auto
    moreover from False have "fmt_1f x = ?body" by (simp add: fmt_1f_def Let_def)
    ultimately show ?thesis by (simp add: py_float_def unsigned_float_decimal)
  qed
qed

lemma has_number_fmt_1f: "has_number (fmt_1f x)"
proof -
  from py_float_fmt_1f [of x] obtain q where "py_float (fmt_1f x) = Some q" by blast
  then show ?thesis by (simp add: has_number_def float_key_def)
qed

lemma render_row_numbers:
  "render_row p = Inr r \<Longrightarrow> has_number (tree_set r CPU) \<and> has_number (tree_set r Memory)"
  by (auto simp: render_row_def Let_def has_number_fmt_1f split: option.splits)

lemma render_row_pid:
  "render_row p = Inr r \<Longrightarrow> convert_stringval (tree_set r PID) = PyInt (p_pid p)"
  by (auto simp: render_row_def Let_def convert_str_int split: option.splits)

lemma populate_serial:
  "tree_serial (populate iid ps st) = tree_serial st + length (rendered_rows ps)"
  by (induction ps arbitrary: st) (simp_all add: rendered_rows_def tree_insert_def split: sum.splits)

lemma populate_tree:
  "tree (populate iid ps st) =
     tree st @ zip (map iid [tree_serial st ..< tree_serial st + length (rendered_rows ps)])
                   (rendered_rows ps)"
proof (induction ps arbitrary: st)
  case Nil
  show ?case by (simp add: rendered_rows_def)
next
  case (Cons p ps)
  show ?case
  proof (cases "render_row p")
    case (Inl e)
    then show ?thesis using Cons.IH by (simp add: rendered_rows_def)
  next
    case (Inr r)
    let ?n = "tree_serial st"
    let ?m = "length (rendered_rows ps)"
    have "?n < ?n + Suc ?m" by simp
    from upt_conv_Cons [OF this]
    have "[?n ..< ?n + Suc ?m] = ?n # [Suc ?n ..< Suc ?n + ?m]"
      by (simp only: add_Suc_right add_Suc)
    with Inr show ?thesis
      using Cons.IH [of "tree_insert iid r st"]
      by (simp add: rendered_rows_def tree_insert_def)
  qed
qed

lemma rendered_rows_numbers:
  "r \<in> set (rendered_rows ps) \<Longrightarrow> has_number (tree_set r CPU) \<and> has_number (tree_set r Memory)"
proof -
  assume "r \<in> set (rendered_rows ps)"
  then obtain p where "render_row p = Inr r"
    by (auto simp: rendered_rows_def split: sum.splits)
  then show ?thesis by (rule render_row_numbers)
qed

lemma show_snapshot_table_ok:
  assumes "inj iid"
  shows "table_ok (tree (show_snapshot iid snap st))"
proof -
  obtain cpu mem ps where snap: "snap = (cpu, mem, ps)" by (cases snap)
  let ?ids = "map iid [tree_serial st ..< tree_serial st + length (rendered_rows ps)]"
  have t: "tree (show_snapshot iid snap st) = zip ?ids (rendered_rows ps)"
    by (simp add: snap show_snapshot_def populate_tree)
  have "distinct ?ids"
    using assms by (simp add: distinct_map inj_on_def inj_def)
  then have "distinct (map fst (zip ?ids (rendered_rows ps)))"
    by simp
  moreover have "\<forall>item \<in> set (zip ?ids (rendered_rows ps)).
      has_number (tree_set (snd item) CPU) \<and> has_number (tree_set (snd item) Memory)"
  proof
    fix item assume "item \<in> set (zip ?ids (rendered_rows ps))"
    then have "snd item \<in> set (rendered_rows ps)"
      using set_zip_rightD [of "fst item" "snd item" ?ids "rendered_rows ps"] by simp
    then show "has_number (tree_set (snd item) CPU) \<and> has_number (tree_set (snd item) Memory)"
      by (rule rendered_rows_numbers)
  qed
  ultimately show ?thesis
    by (simp add: t table_ok_def list_all_iff)
qed

lemma drain_table_ok:
  "inj iid \<Longrightarrow> table_ok (tree st) \<Longrightarrow> table_ok (tree (drain iid q st))"
  by (induction q arbitrary: st) (simp_all add: show_snapshot_table_ok)

lemma check_updates_table_ok:
  "inj iid \<Longrightarrow> table_ok (tree st) \<Longrightarrow> table_ok (tree (check_updates iid st))"
  by (simp add: check_updates_def drain_table_ok)

lemma init_monitor_table_ok: "table_ok (tree (init_monitor cores))"
  by (simp add: init_monitor_def table_ok_def)

lemma sort_column_table_ok:
  "table_ok (tree st) \<Longrightarrow> sort_column st col reverse = Inr st' \<Longrightarrow> table_ok (tree st')"
  using sort_column_sorts [of st col reverse] by auto

lemma terminate_process_tree:
  "terminate_process os_terminate confirm st = Inr st' \<Longrightarrow> tree st' = tree st"
  by (cases st rule: terminate_cases; cases confirm)
     (auto simp: terminate_no_selection terminate_missing_item terminate_confirmed
        terminate_declined)

end
